theory Spec2Isabelle
  imports Main "HOL-Library.AList"
begin

section \<open>Syntax trees (go/ast, as far as rewrite.go reads and writes them)\<close>

text \<open>
  The passes of \<^verbatim>\<open>rewrite.go\<close> work on trees of \<^verbatim>\<open>go/ast\<close>. They read and write
  the name of an identifier, read the object an identifier is bound to (its kind, its
  name and the node that declares it), tell an identifier from every other node, and
  edit the list of top-level declarations. The model keeps exactly that much.

  An \<^verbatim>\<open>ast.Object\<close> is never written by the passes, so an identifier carries a copy
  of the object it points to. \<^verbatim>\<open>Object.Decl\<close> is a pointer to the declaring node and is
  only compared for identity (as a key of \<^verbatim>\<open>declMap\<close>): it is the address of that
  node, and every node that can be a key (a \<^verbatim>\<open>FuncDecl\<close>, a \<^verbatim>\<open>TypeSpec\<close>, a
  \<^verbatim>\<open>ValueSpec\<close>) carries its own address as its first argument.
\<close>

datatype objKind = Bad | Pkg | Con | Typ | Var | Fun | Lbl

record object =
  Kind :: objKind
  ObjName :: string
  Decl :: "nat option"

record ident =
  Name :: string
  Obj :: "object option"

text \<open>
  Expressions, types, statements and field lists: \<^verbatim>\<open>ast.Inspect\<close> and the type switches
  of the passes only tell \<^verbatim>\<open>*ast.Ident\<close> from the rest, so every other node is its
  kind (a label) and its children in the order \<^verbatim>\<open>ast.Walk\<close> visits them.
\<close>

datatype node = IdentN ident | Node string "node list"

datatype token = Tok_IMPORT | Tok_CONST | Tok_TYPE | Tok_VAR

datatype spec =
    ImportSpec "ident option" string
  | ValueSpec nat "ident list" "node option" "node list"
  | TypeSpec nat ident node

datatype decl =
    BadDecl
  | GenDecl token "spec list"
  | FuncDecl nat "node option" ident node "node option"

text \<open>
  \<^verbatim>\<open>ImportSpec Name Path\<close>; \<^verbatim>\<open>ValueSpec addr Names Type Values\<close>;
  \<^verbatim>\<open>TypeSpec addr Name Type\<close>; \<^verbatim>\<open>GenDecl Tok Specs\<close>;
  \<^verbatim>\<open>FuncDecl addr Recv Name Type Body\<close>. The parser runs with mode 0, so there are
  no comment nodes. \<^verbatim>\<open>File.Name\<close> is the package clause's identifier.
\<close>

record File =
  PkgName :: ident
  Decls :: "decl list"

record Target =
  Ident :: string
  Import :: string

type_synonym typeMap = "string \<rightharpoonup> Target"

subsection \<open>ast.Inspect\<close>

text \<open>
  Both callbacks given to \<^verbatim>\<open>ast.Inspect\<close> return \<^verbatim>\<open>false\<close> on an identifier (which
  has no children) and \<^verbatim>\<open>true\<close> on every other node, so the walk reaches every
  identifier of the file once, in the order of \<^verbatim>\<open>ast.Walk\<close>. The callback may rename
  the identifier and may change the state of its closure; \<open>v\<close> is that callback.
\<close>

fun mapAccum :: "('a \<Rightarrow> 's \<Rightarrow> 'a \<times> 's) \<Rightarrow> 'a list \<Rightarrow> 's \<Rightarrow> 'a list \<times> 's" where
  "mapAccum v [] s = ([], s)"
| "mapAccum v (x # xs) s =
     (case v x s of (x', s1) \<Rightarrow>
        (case mapAccum v xs s1 of (xs', s2) \<Rightarrow> (x' # xs', s2)))"

fun inspectNode :: "(ident \<Rightarrow> 's \<Rightarrow> ident \<times> 's) \<Rightarrow> node \<Rightarrow> 's \<Rightarrow> node \<times> 's"
  and inspectNodes :: "(ident \<Rightarrow> 's \<Rightarrow> ident \<times> 's) \<Rightarrow> node list \<Rightarrow> 's \<Rightarrow> node list \<times> 's"
where
  "inspectNode v (IdentN x) s = (case v x s of (x', s1) \<Rightarrow> (IdentN x', s1))"
| "inspectNode v (Node k ns) s = (case inspectNodes v ns s of (ns', s1) \<Rightarrow> (Node k ns', s1))"
| "inspectNodes v [] s = ([], s)"
| "inspectNodes v (n # ns) s =
     (case inspectNode v n s of (n', s1) \<Rightarrow>
        (case inspectNodes v ns s1 of (ns', s2) \<Rightarrow> (n' # ns', s2)))"

fun inspectOpt :: "(ident \<Rightarrow> 's \<Rightarrow> ident \<times> 's) \<Rightarrow> node option \<Rightarrow> 's \<Rightarrow> node option \<times> 's" where
  "inspectOpt v None s = (None, s)"
| "inspectOpt v (Some n) s = (case inspectNode v n s of (n', s1) \<Rightarrow> (Some n', s1))"

fun inspectSpec :: "(ident \<Rightarrow> 's \<Rightarrow> ident \<times> 's) \<Rightarrow> spec \<Rightarrow> 's \<Rightarrow> spec \<times> 's" where
  "inspectSpec v (ImportSpec None path) s = (ImportSpec None path, s)"
| "inspectSpec v (ImportSpec (Some x) path) s =
     (case v x s of (x', s1) \<Rightarrow> (ImportSpec (Some x') path, s1))"
| "inspectSpec v (ValueSpec a names ty vals) s =
     (case mapAccum v names s of (names', s1) \<Rightarrow>
        (case inspectOpt v ty s1 of (ty', s2) \<Rightarrow>
           (case inspectNodes v vals s2 of (vals', s3) \<Rightarrow>
              (ValueSpec a names' ty' vals', s3))))"
| "inspectSpec v (TypeSpec a x ty) s =
     (case v x s of (x', s1) \<Rightarrow>
        (case inspectNode v ty s1 of (ty', s2) \<Rightarrow> (TypeSpec a x' ty', s2)))"

fun inspectDecl :: "(ident \<Rightarrow> 's \<Rightarrow> ident \<times> 's) \<Rightarrow> decl \<Rightarrow> 's \<Rightarrow> decl \<times> 's" where
  "inspectDecl v BadDecl s = (BadDecl, s)"
| "inspectDecl v (GenDecl tok specs) s =
     (case mapAccum (inspectSpec v) specs s of (specs', s1) \<Rightarrow> (GenDecl tok specs', s1))"
| "inspectDecl v (FuncDecl a recv x ty body) s =
     (case inspectOpt v recv s of (recv', s1) \<Rightarrow>
        (case v x s1 of (x', s2) \<Rightarrow>
           (case inspectNode v ty s2 of (ty', s3) \<Rightarrow>
              (case inspectOpt v body s3 of (body', s4) \<Rightarrow>
                 (FuncDecl a recv' x' ty' body', s4)))))"

definition inspectFile :: "(ident \<Rightarrow> 's \<Rightarrow> ident \<times> 's) \<Rightarrow> File \<Rightarrow> 's \<Rightarrow> File \<times> 's" where
  "inspectFile v f s =
     (case v (PkgName f) s of (x', s1) \<Rightarrow>
        (case mapAccum (inspectDecl v) (Decls f) s1 of (ds', s2) \<Rightarrow>
           (f\<lparr>PkgName := x', Decls := ds'\<rparr>, s2)))"

text \<open>The identifiers of a tree, in the order the walk meets them.\<close>

fun identsNode :: "node \<Rightarrow> ident list" where
  "identsNode (IdentN x) = [x]"
| "identsNode (Node k ns) = concat (map identsNode ns)"

fun identsOpt :: "node option \<Rightarrow> ident list" where
  "identsOpt None = []"
| "identsOpt (Some n) = identsNode n"

fun identsSpec :: "spec \<Rightarrow> ident list" where
  "identsSpec (ImportSpec None path) = []"
| "identsSpec (ImportSpec (Some x) path) = [x]"
| "identsSpec (ValueSpec a names ty vals) =
     names @ identsOpt ty @ concat (map identsNode vals)"
| "identsSpec (TypeSpec a x ty) = x # identsNode ty"

fun identsDecl :: "decl \<Rightarrow> ident list" where
  "identsDecl BadDecl = []"
| "identsDecl (GenDecl tok specs) = concat (map identsSpec specs)"
| "identsDecl (FuncDecl a recv x ty body) =
     identsOpt recv @ x # identsNode ty @ identsOpt body"

definition identsFile :: "File \<Rightarrow> ident list" where
  "identsFile f = PkgName f # concat (map identsDecl (Decls f))"

text \<open>The same tree with every identifier replaced by its image under \<open>g\<close>.\<close>

fun mapNode :: "(ident \<Rightarrow> ident) \<Rightarrow> node \<Rightarrow> node" where
  "mapNode g (IdentN x) = IdentN (g x)"
| "mapNode g (Node k ns) = Node k (map (mapNode g) ns)"

fun mapSpec :: "(ident \<Rightarrow> ident) \<Rightarrow> spec \<Rightarrow> spec" where
  "mapSpec g (ImportSpec x path) = ImportSpec (map_option g x) path"
| "mapSpec g (ValueSpec a names ty vals) =
     ValueSpec a (map g names) (map_option (mapNode g) ty) (map (mapNode g) vals)"
| "mapSpec g (TypeSpec a x ty) = TypeSpec a (g x) (mapNode g ty)"

fun mapDecl :: "(ident \<Rightarrow> ident) \<Rightarrow> decl \<Rightarrow> decl" where
  "mapDecl g BadDecl = BadDecl"
| "mapDecl g (GenDecl tok specs) = GenDecl tok (map (mapSpec g) specs)"
| "mapDecl g (FuncDecl a recv x ty body) =
     FuncDecl a (map_option (mapNode g) recv) (g x) (mapNode g ty) (map_option (mapNode g) body)"

definition mapFile :: "(ident \<Rightarrow> ident) \<Rightarrow> File \<Rightarrow> File" where
  "mapFile g f = f\<lparr>PkgName := g (PkgName f), Decls := map (mapDecl g) (Decls f)\<rparr>"

section \<open>The passes of the rewriter\<close>

subsection \<open>rewritePkgName (rewrite.go 24-26)\<close>

definition rewritePkgName :: "File \<Rightarrow> string \<Rightarrow> File" where
  "rewritePkgName f pkgName = f\<lparr>PkgName := (PkgName f)\<lparr>Name := pkgName\<rparr>\<rparr>"

subsection \<open>rewriteIdent (rewrite.go 29-63)\<close>

text \<open>
  The callback of the walk: the closure's state is the slice \<^verbatim>\<open>used\<close>. The linear
  search of lines 46-52 is membership in the list.
\<close>

definition rewriteIdentVisit :: "typeMap \<Rightarrow> ident \<Rightarrow> string list \<Rightarrow> ident \<times> string list" where
  "rewriteIdentVisit typeMap x used =
     (case Obj x of
        None \<Rightarrow> (x, used)
      | Some obj \<Rightarrow>
          if Kind obj \<noteq> Typ then (x, used)
          else (case typeMap (Name x) of
                  None \<Rightarrow> (x, used)
                | Some to \<Rightarrow>
                    if Import to = [] then (x\<lparr>Name := Ident to\<rparr>, used)
                    else if Import to \<in> set used then (x\<lparr>Name := Ident to\<rparr>, used)
                    else (x\<lparr>Name := Ident to\<rparr>, used @ [Import to])))"

definition rewriteIdentWalk :: "typeMap \<Rightarrow> File \<Rightarrow> File \<times> string list" where
  "rewriteIdentWalk typeMap f = inspectFile (rewriteIdentVisit typeMap) f []"

text \<open>
  \<^verbatim>\<open>astutil.AddImport\<close> belongs to golang.org/x/tools, not to this repository: it is the
  parameter \<open>addImport\<close>, called once for each element of \<^verbatim>\<open>used\<close>, in order.
\<close>

definition rewriteIdent :: "(string \<Rightarrow> File \<Rightarrow> File) \<Rightarrow> typeMap \<Rightarrow> File \<Rightarrow> File" where
  "rewriteIdent addImport typeMap f =
     (case rewriteIdentWalk typeMap f of (f', used) \<Rightarrow> fold addImport used f')"

subsection \<open>removeTypeDecl (rewrite.go 66-95)\<close>

fun isIdent :: "node \<Rightarrow> bool" where
  "isIdent (IdentN x) = True"
| "isIdent (Node k ns) = False"

text \<open>
  The loop over the specs of one declaration (lines 76-90). The type assertion
  of \<^verbatim>\<open>spec\<close> to a type spec has no \<^verbatim>\<open>ok\<close>: on any other spec it panics, which is
  \<open>None\<close>. Otherwise the result is the flag \<^verbatim>\<open>remove\<close>.
\<close>

fun removeSpecs :: "typeMap \<Rightarrow> spec list \<Rightarrow> bool option" where
  "removeSpecs typeMap [] = Some False"
| "removeSpecs typeMap (TypeSpec a x ty # specs) =
     (if typeMap (Name x) = None then removeSpecs typeMap specs
      else if \<not> isIdent ty then removeSpecs typeMap specs
      else Some True)"
| "removeSpecs typeMap (ImportSpec x path # specs) = None"
| "removeSpecs typeMap (ValueSpec a names ty vals # specs) = None"

text \<open>
  The loop over the declarations runs from the last index down to 0; \<open>removeLoop typeMap
  n ds\<close> is the loop with \<^verbatim>\<open>i = n - 1\<close> still to do. Line 92 rebuilds the slice without
  its element \<^verbatim>\<open>i\<close>.
\<close>

fun removeLoop :: "typeMap \<Rightarrow> nat \<Rightarrow> decl list \<Rightarrow> decl list option" where
  "removeLoop typeMap 0 ds = Some ds"
| "removeLoop typeMap (Suc i) ds =
     (case ds ! i of
        GenDecl tok specs \<Rightarrow>
          if tok \<noteq> Tok_TYPE then removeLoop typeMap i ds
          else (case removeSpecs typeMap specs of
                  None \<Rightarrow> None
                | Some remove \<Rightarrow>
                    if remove then removeLoop typeMap i (take i ds @ drop (Suc i) ds)
                    else removeLoop typeMap i ds)
      | _ \<Rightarrow> removeLoop typeMap i ds)"

definition removeTypeDecl :: "typeMap \<Rightarrow> File \<Rightarrow> File option" where
  "removeTypeDecl typeMap f =
     map_option (\<lambda>ds. f\<lparr>Decls := ds\<rparr>) (removeLoop typeMap (length (Decls f)) (Decls f))"

text \<open>
  What the loop decides for one declaration: it is deleted when it is a \<^verbatim>\<open>type\<close>
  declaration whose spec loop ends with \<^verbatim>\<open>remove\<close> set.
\<close>

fun removed :: "typeMap \<Rightarrow> decl \<Rightarrow> bool" where
  "removed typeMap (GenDecl tok specs) =
     (tok = Tok_TYPE \<and> removeSpecs typeMap specs = Some True)"
| "removed typeMap BadDecl = False"
| "removed typeMap (FuncDecl a recv x ty body) = False"

text \<open>
  The invariant of \<^verbatim>\<open>go/ast\<close> that the type assertions of lines 77 and 109 rely on:
  the specs of a \<^verbatim>\<open>type\<close> declaration are \<^verbatim>\<open>TypeSpec\<close>s.
\<close>

fun isTypeSpec :: "spec \<Rightarrow> bool" where
  "isTypeSpec (TypeSpec a x ty) = True"
| "isTypeSpec (ImportSpec x path) = False"
| "isTypeSpec (ValueSpec a names ty vals) = False"

fun typeDeclOK :: "decl \<Rightarrow> bool" where
  "typeDeclOK (GenDecl tok specs) = (tok \<noteq> Tok_TYPE \<or> list_all isTypeSpec specs)"
| "typeDeclOK BadDecl = True"
| "typeDeclOK (FuncDecl a recv x ty body) = True"

subsection \<open>findDecl (rewrite.go 98-122)\<close>

text \<open>
  Line 114 overwrites the definition of every spec of a \<^verbatim>\<open>type\<close> declaration with a
  fresh identifier \<^verbatim>\<open>uint32\<close> (no object); line 109 panics on a spec that is not a
  \<^verbatim>\<open>TypeSpec\<close>.
\<close>

fun stubSpecs :: "spec list \<Rightarrow> spec list option" where
  "stubSpecs [] = Some []"
| "stubSpecs (TypeSpec a x ty # specs) =
     map_option (\<lambda>specs'. TypeSpec a x (IdentN \<lparr>Name = ''uint32'', Obj = None\<rparr>) # specs')
       (stubSpecs specs)"
| "stubSpecs (ImportSpec x path # specs) = None"
| "stubSpecs (ValueSpec a names ty vals # specs) = None"

fun findDecls :: "decl list \<Rightarrow> decl list option" where
  "findDecls [] = Some []"
| "findDecls (GenDecl tok specs # ds) =
     (if tok \<noteq> Tok_TYPE then findDecls ds
      else (case stubSpecs specs of
              None \<Rightarrow> None
            | Some specs' \<Rightarrow> map_option (\<lambda>ret. GenDecl tok specs' # ret) (findDecls ds)))"
| "findDecls (BadDecl # ds) = findDecls ds"
| "findDecls (FuncDecl a recv x ty body # ds) = findDecls ds"

definition findDecl :: "File \<Rightarrow> decl list option" where
  "findDecl f = findDecls (Decls f)"

subsection \<open>rewriteTopLevelIdent (rewrite.go 127-180)\<close>

text \<open>
  \<^verbatim>\<open>lintName\<close> is declared in a file of the repository that is not under src/: it is
  the parameter \<open>lintName\<close> of the model, and every statement below holds for whatever
  function it is.
\<close>

definition prefixIdent :: "(string \<Rightarrow> string) \<Rightarrow> string \<Rightarrow> string \<Rightarrow> string" where
  "prefixIdent lintName prefix name = lintName (prefix @ ''_'' @ name)"

type_synonym declMap = "nat \<rightharpoonup> string"

text \<open>Lines 156-157, for one name of the value spec at address \<open>a\<close>.\<close>

definition prefixName ::
  "(string \<Rightarrow> string) \<Rightarrow> string \<Rightarrow> nat \<Rightarrow> ident \<Rightarrow> declMap \<Rightarrow> ident \<times> declMap" where
  "prefixName lintName prefix a x declMap =
     (x\<lparr>Name := prefixIdent lintName prefix (Name x)\<rparr>,
      declMap(a \<mapsto> prefixIdent lintName prefix (Name x)))"

text \<open>The test of lines 145-151 that skips a type spec.\<close>

definition alreadyRewritten :: "typeMap \<Rightarrow> ident \<Rightarrow> bool" where
  "alreadyRewritten typeMap x =
     (case Obj x of
        None \<Rightarrow> False
      | Some obj \<Rightarrow>
          Kind obj = Typ \<and>
          (case typeMap (ObjName obj) of None \<Rightarrow> False | Some to \<Rightarrow> Name x = Ident to))"

fun prefixSpec ::
  "(string \<Rightarrow> string) \<Rightarrow> string \<Rightarrow> typeMap \<Rightarrow> spec \<Rightarrow> declMap \<Rightarrow> spec \<times> declMap" where
  "prefixSpec lintName prefix typeMap (TypeSpec a x ty) declMap =
     (if alreadyRewritten typeMap x then (TypeSpec a x ty, declMap)
      else (case prefixName lintName prefix a x declMap of
              (x', declMap') \<Rightarrow> (TypeSpec a x' ty, declMap')))"
| "prefixSpec lintName prefix typeMap (ValueSpec a names ty vals) declMap =
     (case mapAccum (prefixName lintName prefix a) names declMap of
        (names', declMap') \<Rightarrow> (ValueSpec a names' ty vals, declMap'))"
| "prefixSpec lintName prefix typeMap (ImportSpec x path) declMap =
     (ImportSpec x path, declMap)"

fun prefixDecl ::
  "(string \<Rightarrow> string) \<Rightarrow> string \<Rightarrow> typeMap \<Rightarrow> decl \<Rightarrow> declMap \<Rightarrow> decl \<times> declMap" where
  "prefixDecl lintName prefix typeMap (FuncDecl a recv x ty body) declMap =
     (if recv \<noteq> None then (FuncDecl a recv x ty body, declMap)
      else (case prefixName lintName prefix a x declMap of
              (x', declMap') \<Rightarrow> (FuncDecl a recv x' ty body, declMap')))"
| "prefixDecl lintName prefix typeMap (GenDecl tok specs) declMap =
     (case mapAccum (prefixSpec lintName prefix typeMap) specs declMap of
        (specs', declMap') \<Rightarrow> (GenDecl tok specs', declMap'))"
| "prefixDecl lintName prefix typeMap BadDecl declMap = (BadDecl, declMap)"

text \<open>The callback of the second walk (lines 166-178); its closure has no state of its own.\<close>

definition renameUse :: "declMap \<Rightarrow> ident \<Rightarrow> unit \<Rightarrow> ident \<times> unit" where
  "renameUse declMap x u =
     (case Obj x of
        None \<Rightarrow> (x, u)
      | Some obj \<Rightarrow>
          (case Decl obj of
             None \<Rightarrow> (x, u)
           | Some d \<Rightarrow>
               (case declMap d of
                  None \<Rightarrow> (x, u)
                | Some name \<Rightarrow> (x\<lparr>Name := name\<rparr>, u))))"

definition prefixDecls ::
  "(string \<Rightarrow> string) \<Rightarrow> string \<Rightarrow> typeMap \<Rightarrow> File \<Rightarrow> File \<times> declMap" where
  "prefixDecls lintName prefix typeMap f =
     (case mapAccum (prefixDecl lintName prefix typeMap) (Decls f) Map.empty of
        (ds, declMap) \<Rightarrow> (f\<lparr>Decls := ds\<rparr>, declMap))"

definition rewriteTopLevelIdent ::
  "(string \<Rightarrow> string) \<Rightarrow> string \<Rightarrow> typeMap \<Rightarrow> File \<Rightarrow> File" where
  "rewriteTopLevelIdent lintName prefix typeMap f =
     (case prefixDecls lintName prefix typeMap f of
        (f1, declMap) \<Rightarrow> fst (inspectFile (renameUse declMap) f1 ()))"

section \<open>RewritePackage and its collaborators\<close>

text \<open>
  An \<^verbatim>\<open>error\<close> of Go is its message; a panic of a failed type assertion ends the run
  and is kept apart from every error value.
\<close>

datatype error = Error string | Panic

text \<open>
  What the run does to the world outside: the writes to \<^verbatim>\<open>os.Stderr\<close> and the calls
  that change the file system, in the order they are made. \<open>Stderr\<close> is
  \<^verbatim>\<open>printer.Fprint(os.Stderr, fset, f)\<close> (the tree may be nil after a failed parse),
  \<open>FormatNode p f\<close> is \<^verbatim>\<open>format.Node(dest, fset, f)\<close> on the file created at \<open>p\<close>,
  \<open>Close p\<close> the deferred \<^verbatim>\<open>dest.Close()\<close>. A trace pairs each call with the error
  it returned, if any.
\<close>

datatype call =
    Stderr "File option"
  | RemoveAll string
  | MkdirAll string
  | Create string
  | FormatNode string File
  | Close string

type_synonym trace = "(call \<times> error option) list"

text \<open>
  Everything \<^verbatim>\<open>RewritePackage\<close> calls outside rewrite.go is a field of the environment:
  the standard library, \<^verbatim>\<open>go/parser\<close>, \<^verbatim>\<open>go/printer\<close>, \<^verbatim>\<open>go/types\<close>, \<^verbatim>\<open>astutil\<close>, and
  \<^verbatim>\<open>lintName\<close>. Nothing is assumed of them.
  \<^item> \<open>ReadDir\<close>: the entries of a directory, each a name and \<^verbatim>\<open>IsDir()\<close>.
  \<^item> \<open>ParseFile\<close>: \<^verbatim>\<open>parser.ParseFile(fset, path, nil, 0)\<close>.
  \<^item> \<open>Resolve\<close>: what \<^verbatim>\<open>ast.NewPackage\<close> makes of one file, given all of them (it binds
    identifiers that the parser left unresolved).
  \<^item> \<open>Fprint\<close>: \<^verbatim>\<open>printer.Fprint(buf, fset, f)\<close>, the text written to the buffer.
  \<^item> \<open>ParseSrc\<close>: \<^verbatim>\<open>parser.ParseFile(fset, "", buf, 0)\<close>; on an error the tree is
    partial or nil.
  \<^item> \<open>Check\<close>: \<^verbatim>\<open>conf.Check("", fset, tc, nil)\<close>.
  \<^item> \<open>RangeRank\<close>: Go does not fix the order in which \<^verbatim>\<open>range\<close> visits a map. The
    \<open>k\<close>-th loop over \<^verbatim>\<open>files\<close> visits the keys by increasing \<open>RangeRank k\<close>, which
    can be any order.
  \<^item> \<open>OsError\<close>: the error a call returns, which may depend on all calls made before.
\<close>

record env =
  Getenv :: "string \<Rightarrow> string"
  ReadDir :: "string \<Rightarrow> error + (string \<times> bool) list"
  ParseFile :: "string \<Rightarrow> error + File"
  Resolve :: "(string \<times> File) list \<Rightarrow> File \<Rightarrow> File"
  Fprint :: "File \<Rightarrow> error + string"
  ParseSrc :: "string \<Rightarrow> (error \<times> File option) + File"
  Check :: "File list \<Rightarrow> error option"
  Base :: "string \<Rightarrow> string"
  LintName :: "string \<Rightarrow> string"
  AddImport :: "string \<Rightarrow> File \<Rightarrow> File"
  RangeRank :: "nat \<Rightarrow> string \<Rightarrow> nat"
  OsError :: "trace \<Rightarrow> call \<Rightarrow> error option"

definition perform :: "env \<Rightarrow> call \<Rightarrow> trace \<Rightarrow> error option \<times> trace" where
  "perform X c tr = (OsError X tr c, tr @ [(c, OsError X tr c)])"

definition rangeOver :: "env \<Rightarrow> nat \<Rightarrow> (string \<times> File) list \<Rightarrow> (string \<times> File) list" where
  "rangeOver X k files = sort_key (\<lambda>pf. RangeRank X k (fst pf)) files"

subsection \<open>strings.HasPrefix, strings.TrimPrefix, strings.HasSuffix\<close>

definition HasPrefix :: "string \<Rightarrow> string \<Rightarrow> bool" where
  "HasPrefix s p = (length p \<le> length s \<and> take (length p) s = p)"

definition TrimPrefix :: "string \<Rightarrow> string \<Rightarrow> string" where
  "TrimPrefix s p = (if HasPrefix s p then drop (length p) s else s)"

definition HasSuffix :: "string \<Rightarrow> string \<Rightarrow> bool" where
  "HasSuffix s p = (length p \<le> length s \<and> drop (length s - length p) s = p)"

subsection \<open>walkSource (rewrite.go 183-205)\<close>

fun walkEntries ::
  "string \<Rightarrow> (string \<Rightarrow> 's \<Rightarrow> error + 's) \<Rightarrow> (string \<times> bool) list \<Rightarrow> 's \<Rightarrow> error + 's" where
  "walkEntries pkgPath sourceFunc [] s = Inr s"
| "walkEntries pkgPath sourceFunc ((name, isDir) # fi) s =
     (if isDir then walkEntries pkgPath sourceFunc fi s
      else if \<not> HasSuffix (pkgPath @ ''/'' @ name) ''.go''
        then walkEntries pkgPath sourceFunc fi s
      else if HasSuffix (pkgPath @ ''/'' @ name) ''_test.go''
        then walkEntries pkgPath sourceFunc fi s
      else (case sourceFunc (pkgPath @ ''/'' @ name) s of
              Inl err \<Rightarrow> Inl err
            | Inr s' \<Rightarrow> walkEntries pkgPath sourceFunc fi s'))"

definition walkSource ::
  "env \<Rightarrow> string \<Rightarrow> (string \<Rightarrow> 's \<Rightarrow> error + 's) \<Rightarrow> 's \<Rightarrow> error + 's" where
  "walkSource X pkgPath sourceFunc s =
     (case ReadDir X pkgPath of
        Inl err \<Rightarrow> Inl err
      | Inr fi \<Rightarrow> walkEntries pkgPath sourceFunc fi s)"

subsection \<open>parsePackageTarget (rewrite.go 207-229)\<close>

record packageTarget =
  SameDir :: bool
  NewName :: string
  NewPath :: string

definition parsePackageTarget :: "env \<Rightarrow> string \<Rightarrow> error + packageTarget" where
  "parsePackageTarget X path =
     (if HasPrefix path ''.'' then
        (if Getenv X ''GOPACKAGE'' = [] then Inl (Error ''GOPACKAGE cannot be empty'')
         else Inr \<lparr>SameDir = True, NewName = Getenv X ''GOPACKAGE'',
                   NewPath = TrimPrefix path ''.''\<rparr>)
      else Inr \<lparr>SameDir = False, NewName = Base X path, NewPath = path\<rparr>)"

subsection \<open>RewritePackage (rewrite.go 235-367)\<close>

text \<open>The closure of lines 245-252: the state is the map \<^verbatim>\<open>files\<close>.\<close>

definition loadSource :: "env \<Rightarrow> string \<Rightarrow> (string \<times> File) list \<Rightarrow> error + (string \<times> File) list" where
  "loadSource X path files =
     (case ParseFile X path of
        Inl err \<Rightarrow> Inl err
      | Inr f \<Rightarrow> Inr (AList.update path f files))"

text \<open>Lines 265-270: the passes on one file, in their order.\<close>

definition rewriteFile :: "env \<Rightarrow> packageTarget \<Rightarrow> typeMap \<Rightarrow> File \<Rightarrow> File option" where
  "rewriteFile X pt typeMap f =
     (case removeTypeDecl typeMap (rewritePkgName f (NewName pt)) of
        None \<Rightarrow> None
      | Some f1 \<Rightarrow>
          Some (if SameDir pt
                then rewriteTopLevelIdent (LintName X) (NewPath pt) typeMap
                       (rewriteIdent (AddImport X) typeMap f1)
                else rewriteIdent (AddImport X) typeMap f1))"

text \<open>Lines 272-282: print and parse again; a parse error dumps the tree it got.\<close>

definition refresh :: "env \<Rightarrow> File \<Rightarrow> (error \<times> trace) + File" where
  "refresh X f =
     (case Fprint X f of
        Inl err \<Rightarrow> Inl (err, [])
      | Inr src \<Rightarrow>
          (case ParseSrc X src of
             Inl (err, partial) \<Rightarrow> Inl (err, snd (perform X (Stderr partial) []))
           | Inr f' \<Rightarrow> Inr f'))"

text \<open>
  The loop of lines 264-285 over the pairs that \<^verbatim>\<open>range\<close> yields; its state is the map
  \<^verbatim>\<open>files\<close> and the slice \<^verbatim>\<open>tc\<close>.
\<close>

fun rewriteLoop ::
  "env \<Rightarrow> packageTarget \<Rightarrow> typeMap \<Rightarrow> (string \<times> File) list \<Rightarrow>
   (string \<times> File) list \<Rightarrow> File list \<Rightarrow> (error \<times> trace) + ((string \<times> File) list \<times> File list)" where
  "rewriteLoop X pt typeMap [] files tc = Inr (files, tc)"
| "rewriteLoop X pt typeMap ((path, f) # rest) files tc =
     (case rewriteFile X pt typeMap f of
        None \<Rightarrow> Inl (Panic, [])
      | Some g \<Rightarrow>
          (case refresh X g of
             Inl e \<Rightarrow> Inl e
           | Inr f' \<Rightarrow> rewriteLoop X pt typeMap rest (AList.update path f' files) (tc @ [f'])))"

text \<open>The closure of lines 292-305: the state is the slice \<^verbatim>\<open>tc\<close>.\<close>

definition stubSource :: "env \<Rightarrow> string \<Rightarrow> File list \<Rightarrow> error + File list" where
  "stubSource X path tc =
     (case ParseFile X path of
        Inl err \<Rightarrow> Inl err
      | Inr f \<Rightarrow>
          (case findDecl f of
             None \<Rightarrow> Inl Panic
           | Some decl \<Rightarrow>
               if length decl > 0 then Inr (tc @ [\<lparr>PkgName = PkgName f, Decls = decl\<rparr>])
               else Inr tc))"

text \<open>
  Lines 238-309, up to the call of the checker: the destination, the map \<^verbatim>\<open>files\<close> of
  rewritten and refreshed trees, and the slice \<^verbatim>\<open>tc\<close> of trees to check; or the error
  returned before, with what was written to \<^verbatim>\<open>os.Stderr\<close>.
\<close>

definition prepare ::
  "env \<Rightarrow> string \<Rightarrow> string \<Rightarrow> typeMap \<Rightarrow>
   (error \<times> trace) + (packageTarget \<times> (string \<times> File) list \<times> File list)" where
  "prepare X pkgPath newPkgPath typeMap =
     (case parsePackageTarget X newPkgPath of
        Inl err \<Rightarrow> Inl (err, [])
      | Inr pt \<Rightarrow>
     (case walkSource X (Getenv X ''GOPATH'' @ ''/src/'' @ pkgPath) (loadSource X) [] of
        Inl err \<Rightarrow> Inl (err, [])
      | Inr parsed \<Rightarrow>
     (case rewriteLoop X pt typeMap
             (rangeOver X 0 (map (\<lambda>pf. (fst pf, Resolve X parsed (snd pf))) parsed))
             (map (\<lambda>pf. (fst pf, Resolve X parsed (snd pf))) parsed) [] of
        Inl e \<Rightarrow> Inl e
      | Inr (files, tc) \<Rightarrow>
          if SameDir pt then
            (case walkSource X ''.'' (stubSource X) tc of
               Inl err \<Rightarrow> Inl (err, [])
             | Inr tc' \<Rightarrow> Inr (pt, files, tc'))
          else Inr (pt, files, tc))))"

text \<open>Lines 313-315: every tree under check goes to \<^verbatim>\<open>os.Stderr\<close>.\<close>

fun dump :: "env \<Rightarrow> File list \<Rightarrow> trace \<Rightarrow> trace" where
  "dump X [] tr = tr"
| "dump X (f # tc) tr = dump X tc (snd (perform X (Stderr (Some f)) tr))"

text \<open>
  The two emission loops (lines 320-333 and 352-365) differ in the destination only,
  \<open>dst\<close>. \<open>opened\<close> is the stack of deferred \<^verbatim>\<open>dest.Close()\<close> calls, the last deferred
  first. The result is the value of \<^verbatim>\<open>err\<close> when the loop is left.
\<close>

fun emitLoop ::
  "env \<Rightarrow> (string \<Rightarrow> string) \<Rightarrow> (string \<times> File) list \<Rightarrow> string list \<Rightarrow> trace \<Rightarrow>
   error option \<times> string list \<times> trace" where
  "emitLoop X dst [] opened tr = (None, opened, tr)"
| "emitLoop X dst ((path, f) # rest) opened tr =
     (case perform X (Create (dst path)) tr of
        (Some err, tr1) \<Rightarrow> (Some err, opened, tr1)
      | (None, tr1) \<Rightarrow>
          (case perform X (FormatNode (dst path) f) tr1 of
             (Some err, tr2) \<Rightarrow> (Some err, dst path # opened, tr2)
           | (None, tr2) \<Rightarrow> emitLoop X dst rest (dst path # opened) tr2))"

text \<open>The deferred calls run when the function returns, the last deferred first.\<close>

fun runDeferred :: "env \<Rightarrow> string list \<Rightarrow> trace \<Rightarrow> trace" where
  "runDeferred X [] tr = tr"
| "runDeferred X (p # opened) tr = runDeferred X opened (snd (perform X (Close p) tr))"

definition sameDirDest :: "env \<Rightarrow> packageTarget \<Rightarrow> string \<Rightarrow> string" where
  "sameDirDest X pt path = NewPath pt @ ''_'' @ Base X path"

definition newPackageDest :: "env \<Rightarrow> packageTarget \<Rightarrow> string \<Rightarrow> string" where
  "newPackageDest X pt path = NewPath pt @ ''/'' @ Base X path"

text \<open>Lines 319-335.\<close>

definition emitSameDir :: "env \<Rightarrow> packageTarget \<Rightarrow> (string \<times> File) list \<Rightarrow> trace \<Rightarrow> error option \<times> trace" where
  "emitSameDir X pt files tr =
     (case emitLoop X (sameDirDest X pt) (rangeOver X 1 files) [] tr of
        (err, opened, tr1) \<Rightarrow> (err, runDeferred X opened tr1))"

text \<open>
  Lines 337-366. The function deferred at line 346 is the first deferred, so it runs
  last, after the files are closed; it removes the directory when \<^verbatim>\<open>err\<close> is set and
  drops the error of that removal.
\<close>

definition emitNewPackage :: "env \<Rightarrow> packageTarget \<Rightarrow> (string \<times> File) list \<Rightarrow> trace \<Rightarrow> error option \<times> trace" where
  "emitNewPackage X pt files tr =
     (case perform X (RemoveAll (NewPath pt)) tr of
        (Some err, tr1) \<Rightarrow> (Some err, tr1)
      | (None, tr1) \<Rightarrow>
          (case perform X (MkdirAll (NewPath pt)) tr1 of
             (Some err, tr2) \<Rightarrow> (Some err, tr2)
           | (None, tr2) \<Rightarrow>
               (case emitLoop X (newPackageDest X pt) (rangeOver X 1 files) [] tr2 of
                  (err, opened, tr3) \<Rightarrow>
                    (err,
                     if err \<noteq> None
                     then snd (perform X (RemoveAll (NewPath pt)) (runDeferred X opened tr3))
                     else runDeferred X opened tr3))))"

definition RewritePackage :: "env \<Rightarrow> string \<Rightarrow> string \<Rightarrow> typeMap \<Rightarrow> error option \<times> trace" where
  "RewritePackage X pkgPath newPkgPath typeMap =
     (case prepare X pkgPath newPkgPath typeMap of
        Inl (err, tr) \<Rightarrow> (Some err, tr)
      | Inr (pt, files, tc) \<Rightarrow>
          (case Check X tc of
             Some err \<Rightarrow> (Some err, dump X tc [])
           | None \<Rightarrow>
               if SameDir pt then emitSameDir X pt files []
               else emitNewPackage X pt files []))"

section \<open>What is observed of a file\<close>

text \<open>
  The names that the top-level declarations of a file declare: a function without a
  receiver, every type spec, every name of a value spec. A method is not a top-level
  name.
\<close>

fun specNames :: "spec \<Rightarrow> string list" where
  "specNames (TypeSpec a x ty) = [Name x]"
| "specNames (ValueSpec a names ty vals) = map Name names"
| "specNames (ImportSpec x path) = []"

fun declaredNames :: "decl \<Rightarrow> string list" where
  "declaredNames (FuncDecl a recv x ty body) = (if recv = None then [Name x] else [])"
| "declaredNames (GenDecl tok specs) = concat (map specNames specs)"
| "declaredNames BadDecl = []"

text \<open>
  The same declarations with the address of the declaring node, the declaring identifier,
  and whether the pass that prefixes names skips it (a type spec for which the test of
  lines 145-151 holds).
\<close>

fun topLevelSpec :: "typeMap \<Rightarrow> spec \<Rightarrow> (nat \<times> ident \<times> bool) list" where
  "topLevelSpec typeMap (TypeSpec a x ty) = [(a, x, alreadyRewritten typeMap x)]"
| "topLevelSpec typeMap (ValueSpec a names ty vals) = map (\<lambda>x. (a, x, False)) names"
| "topLevelSpec typeMap (ImportSpec x path) = []"

fun topLevel :: "typeMap \<Rightarrow> decl \<Rightarrow> (nat \<times> ident \<times> bool) list" where
  "topLevel typeMap (FuncDecl a recv x ty body) = (if recv = None then [(a, x, False)] else [])"
| "topLevel typeMap (GenDecl tok specs) = concat (map (topLevelSpec typeMap) specs)"
| "topLevel typeMap BadDecl = []"



text \<open>
  An identifier is bound to the node at address \<open>a\<close> when its object's \<^verbatim>\<open>Decl\<close> points
  there.
\<close>

definition boundTo :: "nat \<Rightarrow> ident \<Rightarrow> bool" where
  "boundTo a x = (case Obj x of None \<Rightarrow> False | Some obj \<Rightarrow> Decl obj = Some a)"

text \<open>
  The stub of a declaration as the specification words it: the definition of every type
  spec is the neutral scalar \<^verbatim>\<open>uint32\<close>; it is compared with \<open>findDecl\<close> below.
\<close>

definition neutralScalar :: "spec \<Rightarrow> spec" where
  "neutralScalar sp =
     (case sp of
        TypeSpec a x ty \<Rightarrow> TypeSpec a x (IdentN \<lparr>Name = ''uint32'', Obj = None\<rparr>)
      | _ \<Rightarrow> sp)"

fun stubDecl :: "decl \<Rightarrow> decl" where
  "stubDecl (GenDecl tok specs) = GenDecl tok (map neutralScalar specs)"
| "stubDecl BadDecl = BadDecl"
| "stubDecl (FuncDecl a recv x ty body) = FuncDecl a recv x ty body"

fun isTypeDecl :: "decl \<Rightarrow> bool" where
  "isTypeDecl (GenDecl tok specs) = (tok = Tok_TYPE)"
| "isTypeDecl BadDecl = False"
| "isTypeDecl (FuncDecl a recv x ty body) = False"

text \<open>
  For the proofs: one assignment \<^verbatim>\<open>declMap[k] = v\<close>, the assignments that a list of
  top-level declarations causes (in order), and the calls that the emission loop makes
  when nothing fails.
\<close>

definition assign :: "nat \<times> string \<Rightarrow> declMap \<Rightarrow> declMap" where
  "assign kv m = m(fst kv \<mapsto> snd kv)"

definition assigned :: "(string \<Rightarrow> string) \<Rightarrow> string \<Rightarrow> (nat \<times> ident \<times> bool) list \<Rightarrow> (nat \<times> string) list" where
  "assigned L p ts = map (\<lambda>t. (fst t, prefixIdent L p (Name (fst (snd t))))) (filter (\<lambda>t. \<not> snd (snd t)) ts)"

definition writes :: "(string \<Rightarrow> string) \<Rightarrow> (string \<times> File) list \<Rightarrow> call list" where
  "writes dst fs = concat (map (\<lambda>pf. [Create (dst (fst pf)), FormatNode (dst (fst pf)) (snd pf)]) fs)"

subsection \<open>The imports of a file\<close>





section \<open>A template and an environment to run it in\<close>

text \<open>
  The template \<^verbatim>\<open>package stack; type Item int; func Process(x Item) Item { return
  Process(x) }\<close> as the parser builds it, with \<^verbatim>\<open>Item\<close> mapped to \<^verbatim>\<open>MyRecord\<close> of
  \<^verbatim>\<open>extpkg\<close>.
\<close>

definition exampleMap :: typeMap where
  "exampleMap = [''Item'' \<mapsto> \<lparr>Ident = ''MyRecord'', Import = ''extpkg''\<rparr>]"

definition itemUse :: ident where
  "itemUse = \<lparr>Name = ''Item'', Obj = Some \<lparr>Kind = Typ, ObjName = ''Item'', Decl = Some 1\<rparr>\<rparr>"

definition processUse :: ident where
  "processUse = \<lparr>Name = ''Process'', Obj = Some \<lparr>Kind = Fun, ObjName = ''Process'', Decl = Some 2\<rparr>\<rparr>"

definition xUse :: ident where
  "xUse = \<lparr>Name = ''x'', Obj = Some \<lparr>Kind = Var, ObjName = ''x'', Decl = Some 3\<rparr>\<rparr>"

definition processDecl :: decl where
  "processDecl =
     FuncDecl 2 None processUse
       (Node ''FuncType''
          [Node ''FieldList'' [Node ''Field'' [IdentN xUse, IdentN itemUse]],
           Node ''FieldList'' [Node ''Field'' [IdentN itemUse]]])
       (Some (Node ''BlockStmt''
          [Node ''ReturnStmt'' [Node ''CallExpr'' [IdentN processUse, IdentN xUse]]]))"

definition exampleFile :: File where
  "exampleFile =
     \<lparr>PkgName = \<lparr>Name = ''stack'', Obj = None\<rparr>,
      Decls = [GenDecl Tok_TYPE [TypeSpec 1 itemUse (IdentN \<lparr>Name = ''int'', Obj = None\<rparr>)],
               processDecl]\<rparr>"

definition processFile :: File where
  "processFile = \<lparr>PkgName = \<lparr>Name = ''stack'', Obj = None\<rparr>, Decls = [processDecl]\<rparr>"

text \<open>
  A second file of the same package that calls \<^verbatim>\<open>Process\<close>: \<^verbatim>\<open>ast.NewPackage\<close> has
  bound the call to the declaration in the first file (address 2).
\<close>

definition callerFile :: File where
  "callerFile =
     \<lparr>PkgName = \<lparr>Name = ''stack'', Obj = None\<rparr>,
      Decls = [FuncDecl 5 None
                 \<lparr>Name = ''Run'', Obj = Some \<lparr>Kind = Fun, ObjName = ''Run'', Decl = Some 5\<rparr>\<rparr>
                 (Node ''FuncType'' [])
                 (Some (Node ''BlockStmt'' [Node ''ExprStmt'' [Node ''CallExpr'' [IdentN processUse]]]))]\<rparr>"

text \<open>
  \<^verbatim>\<open>var a, b = 1, 2\<close> and a function that uses \<^verbatim>\<open>a\<close>: both names are declared by
  the one value spec at address 1.
\<close>

definition aUse :: ident where
  "aUse = \<lparr>Name = ''a'', Obj = Some \<lparr>Kind = Var, ObjName = ''a'', Decl = Some 1\<rparr>\<rparr>"

definition bUse :: ident where
  "bUse = \<lparr>Name = ''b'', Obj = Some \<lparr>Kind = Var, ObjName = ''b'', Decl = Some 1\<rparr>\<rparr>"

definition varFile :: File where
  "varFile =
     \<lparr>PkgName = \<lparr>Name = ''stack'', Obj = None\<rparr>,
      Decls = [GenDecl Tok_VAR [ValueSpec 1 [aUse, bUse] None [Node ''BasicLit'' [], Node ''BasicLit'' []]],
               FuncDecl 2 None
                 \<lparr>Name = ''Use'', Obj = Some \<lparr>Kind = Fun, ObjName = ''Use'', Decl = Some 2\<rparr>\<rparr>
                 (Node ''FuncType'' [])
                 (Some (Node ''BlockStmt'' [Node ''ExprStmt'' [IdentN aUse]]))]\<rparr>"

text \<open>
  The template after the substitution when \<^verbatim>\<open>Item\<close> is declared as a struct:
  \<^verbatim>\<open>removeTypeDecl\<close> keeps the declaration and \<^verbatim>\<open>rewriteIdent\<close> has renamed its
  identifier (bound to the type \<^verbatim>\<open>Item\<close>) to \<^verbatim>\<open>MyRecord\<close>.
\<close>

definition myRecordUse :: ident where
  "myRecordUse = \<lparr>Name = ''MyRecord'', Obj = Some \<lparr>Kind = Typ, ObjName = ''Item'', Decl = Some 1\<rparr>\<rparr>"

definition keptTypeFile :: File where
  "keptTypeFile =
     \<lparr>PkgName = \<lparr>Name = ''stack'', Obj = None\<rparr>,
      Decls = [GenDecl Tok_TYPE [TypeSpec 1 myRecordUse (Node ''StructType'' [Node ''FieldList'' []])],
               FuncDecl 2 None processUse
                 (Node ''FuncType'' [Node ''FieldList'' [Node ''Field'' [IdentN xUse, IdentN myRecordUse]]])
                 (Some (Node ''BlockStmt'' [Node ''ExprStmt'' [Node ''CallExpr'' [IdentN processUse, IdentN xUse]]]))]\<rparr>"

text \<open>
  An \<^verbatim>\<open>AddImport\<close> to run the examples with. As in golang.org/x/tools, a path is
  present when an import spec without a name (or with the empty name) has it; an import
  under a name, such as \<^verbatim>\<open>import ext "extpkg"\<close>, does not count. A path that is not
  present is added in an import declaration of its own.
\<close>

fun unnamedPaths :: "spec \<Rightarrow> string list" where
  "unnamedPaths (ImportSpec None path) = [path]"
| "unnamedPaths (ImportSpec (Some x) path) = (if Name x = [] then [path] else [])"
| "unnamedPaths (ValueSpec a names ty vals) = []"
| "unnamedPaths (TypeSpec a x ty) = []"

fun declUnnamedPaths :: "decl \<Rightarrow> string list" where
  "declUnnamedPaths (GenDecl tok specs) = concat (map unnamedPaths specs)"
| "declUnnamedPaths BadDecl = []"
| "declUnnamedPaths (FuncDecl a recv x ty body) = []"

definition hasImport :: "File \<Rightarrow> string \<Rightarrow> bool" where
  "hasImport f p = (p \<in> set (concat (map declUnnamedPaths (Decls f))))"

definition addImportIfAbsent :: "string \<Rightarrow> File \<Rightarrow> File" where
  "addImportIfAbsent p f =
     (if hasImport f p then f
      else f\<lparr>Decls := GenDecl Tok_IMPORT [ImportSpec None p] # Decls f\<rparr>)"



text \<open>
  A directory \<^verbatim>\<open>/go/src/stack\<close> with the template, a test file and a subdirectory, and
  a current directory with one file \<^verbatim>\<open>main.go\<close> that declares a struct type. Printing
  keeps the package name and the declared names, and parsing that text gives a tree with
  them; \<^verbatim>\<open>lintName\<close> changes nothing; no call fails.
\<close>

definition siblingFile :: File where
  "siblingFile =
     \<lparr>PkgName = \<lparr>Name = ''main'', Obj = None\<rparr>,
      Decls = [GenDecl Tok_TYPE
                 [TypeSpec 20 \<lparr>Name = ''MyRecord'', Obj = Some \<lparr>Kind = Typ, ObjName = ''MyRecord'', Decl = Some 20\<rparr>\<rparr>
                    (Node ''StructType'' [Node ''FieldList'' []])],
               FuncDecl 21 None \<lparr>Name = ''main'', Obj = None\<rparr> (Node ''FuncType'' []) None]\<rparr>"

definition siblingStub :: File where
  "siblingStub =
     \<lparr>PkgName = \<lparr>Name = ''main'', Obj = None\<rparr>,
      Decls = [GenDecl Tok_TYPE
                 [TypeSpec 20 \<lparr>Name = ''MyRecord'', Obj = Some \<lparr>Kind = Typ, ObjName = ''MyRecord'', Decl = Some 20\<rparr>\<rparr>
                    (IdentN \<lparr>Name = ''uint32'', Obj = None\<rparr>)]]\<rparr>"

definition reparsed :: "string \<Rightarrow> string \<Rightarrow> File" where
  "reparsed pkg name =
     \<lparr>PkgName = \<lparr>Name = pkg, Obj = None\<rparr>,
      Decls = [FuncDecl 10 None
                 \<lparr>Name = name, Obj = Some \<lparr>Kind = Fun, ObjName = name, Decl = Some 10\<rparr>\<rparr>
                 (Node ''FuncType'' []) None]\<rparr>"

definition exampleEnv :: env where
  "exampleEnv =
     \<lparr>Getenv = (\<lambda>k. if k = ''GOPATH'' then ''/go'' else if k = ''GOPACKAGE'' then ''main'' else []),
      ReadDir = (\<lambda>d. if d = ''/go/src/stack''
                       then Inr [(''stack.go'', False), (''stack_test.go'', False), (''testdata'', True)]
                     else if d = ''.'' then Inr [(''main.go'', False)]
                     else Inl (Error ''no such directory'')),
      ParseFile = (\<lambda>p. if p = ''/go/src/stack/stack.go'' then Inr exampleFile
                       else if p = ''./main.go'' then Inr siblingFile
                       else Inl (Error ''no such file'')),
      Resolve = (\<lambda>files f. f),
      Fprint = (\<lambda>f. Inr (Name (PkgName f) @ '' '' @ concat (concat (map declaredNames (Decls f))))),
      ParseSrc = (\<lambda>src. Inr (reparsed (takeWhile (\<lambda>c. c \<noteq> CHR '' '') src)
                                       (tl (dropWhile (\<lambda>c. c \<noteq> CHR '' '') src)))),
      Check = (\<lambda>tc. None),
      Base = (\<lambda>p. rev (takeWhile (\<lambda>c. c \<noteq> CHR ''/'') (rev p))),
      LintName = (\<lambda>n. n),
      AddImport = addImportIfAbsent,
      RangeRank = (\<lambda>k p. 0),
      OsError = (\<lambda>tr c. None)\<rparr>"

text \<open>
  The same environment with a checker that rejects the trees, with a disk that is full
  when a file is written, and with an empty current directory.
\<close>

definition failingCheck :: env where
  "failingCheck = exampleEnv\<lparr>Check := (\<lambda>tc. Some (Error ''type error''))\<rparr>"

definition diskFull :: env where
  "diskFull = exampleEnv\<lparr>OsError := (\<lambda>tr c. case c of FormatNode p f \<Rightarrow> Some (Error ''disk full'') | _ \<Rightarrow> None)\<rparr>"

definition noSiblings :: env where
  "noSiblings = exampleEnv\<lparr>ReadDir := (ReadDir exampleEnv)(''.'' := Inr []), ParseFile := ParseFile exampleEnv\<rparr>"

lemmas example_defs =
  exampleMap_def itemUse_def processUse_def xUse_def processDecl_def exampleFile_def
  processFile_def callerFile_def aUse_def bUse_def varFile_def

section \<open>Properties of the walk\<close>

text \<open>
  When the callback renames an identifier by \<open>g\<close> and steps its closure's state by \<open>h\<close>,
  the walk maps \<open>g\<close> over the tree and folds \<open>h\<close> over the identifiers in walk order.
\<close>

lemma mapAccum_map_fold:
  assumes "\<And>x s. x \<in> set xs \<Longrightarrow> v x s = (g x, fold h (ids x) s)"
  shows "mapAccum v xs s = (map g xs, fold h (concat (map ids xs)) s)"
  using assms by (induction xs arbitrary: s) simp_all

lemma inspectNode_map_fold:
  assumes v: "\<And>x s. v x s = (g x, h x s)"
  shows "inspectNode v n s = (mapNode g n, fold h (identsNode n) s)"
    and "inspectNodes v ns s = (map (mapNode g) ns, fold h (concat (map identsNode ns)) s)"
  using v by (induction v n s and v ns s rule: inspectNode_inspectNodes.induct) simp_all

lemma inspectOpt_map_fold:
  assumes v: "\<And>x s. v x s = (g x, h x s)"
  shows "inspectOpt v n s = (map_option (mapNode g) n, fold h (identsOpt n) s)"
  by (cases n) (simp_all add: inspectNode_map_fold(1)[of v g h, OF v])

lemma mapAccum_idents:
  assumes v: "\<And>x s. v x s = (g x, h x s)"
  shows "mapAccum v xs s = (map g xs, fold h xs s)"
  by (induction xs arbitrary: s) (simp_all add: v)

lemma inspectSpec_map_fold:
  assumes v: "\<And>x s. v x s = (g x, h x s)"
  shows "inspectSpec v sp s = (mapSpec g sp, fold h (identsSpec sp) s)"
proof (cases sp)
  case (ImportSpec x path)
  then show ?thesis by (cases x) (simp_all add: v)
next
  case (ValueSpec a names ty vals)
  then show ?thesis
    by (simp add: mapAccum_idents[of v g h, OF v] inspectOpt_map_fold[of v g h, OF v]
        inspectNode_map_fold(2)[of v g h, OF v])
next
  case (TypeSpec a x ty)
  then show ?thesis by (simp add: v inspectNode_map_fold(1)[of v g h, OF v])
qed

lemma inspectDecl_map_fold:
  assumes v: "\<And>x s. v x s = (g x, h x s)"
  shows "inspectDecl v d s = (mapDecl g d, fold h (identsDecl d) s)"
proof (cases d)
  case BadDecl
  then show ?thesis by simp
next
  case (GenDecl tok specs)
  have "mapAccum (inspectSpec v) specs s =
          (map (mapSpec g) specs, fold h (concat (map identsSpec specs)) s)"
    by (rule mapAccum_map_fold) (simp add: inspectSpec_map_fold[of v g h, OF v])
  then show ?thesis using GenDecl by simp
next
  case (FuncDecl a recv x ty body)
  then show ?thesis
    by (simp add: v inspectOpt_map_fold[of v g h, OF v] inspectNode_map_fold(1)[of v g h, OF v])
qed

lemma inspectFile_map_fold:
  assumes v: "\<And>x s. v x s = (g x, h x s)"
  shows "inspectFile v f s = (mapFile g f, fold h (identsFile f) s)"
proof -
  have "mapAccum (inspectDecl v) (Decls f) s1 =
          (map (mapDecl g) (Decls f), fold h (concat (map identsDecl (Decls f))) s1)" for s1
    by (rule mapAccum_map_fold) (simp add: inspectDecl_map_fold[of v g h, OF v])
  then show ?thesis
    by (simp add: inspectFile_def mapFile_def identsFile_def v)
qed

lemma identsNode_mapNode:
  "identsNode (mapNode g n) = map g (identsNode n)"
  by (induction n) (simp_all add: map_concat comp_def cong: map_cong)

lemma identsOpt_map: "identsOpt (map_option (mapNode g) n) = map g (identsOpt n)"
  by (cases n) (simp_all add: identsNode_mapNode)

lemma identsSpec_mapSpec: "identsSpec (mapSpec g sp) = map g (identsSpec sp)"
proof (cases sp)
  case (ImportSpec x path)
  then show ?thesis by (cases x) simp_all
qed (simp_all add: identsNode_mapNode identsOpt_map map_concat comp_def)

lemma identsDecl_mapDecl: "identsDecl (mapDecl g d) = map g (identsDecl d)"
  by (cases d) (simp_all add: identsNode_mapNode identsOpt_map identsSpec_mapSpec map_concat comp_def)

lemma identsFile_mapFile: "identsFile (mapFile g f) = map g (identsFile f)"
  by (simp add: identsFile_def mapFile_def identsDecl_mapDecl map_concat comp_def)

lemma mapNode_comp: "mapNode g (mapNode k n) = mapNode (g \<circ> k) n"
  by (induction n) simp_all

lemma mapSpec_comp: "mapSpec g (mapSpec k sp) = mapSpec (g \<circ> k) sp"
  by (cases sp) (simp_all add: mapNode_comp option.map_comp comp_def)

lemma mapDecl_comp: "mapDecl g (mapDecl k d) = mapDecl (g \<circ> k) d"
  by (cases d) (simp_all add: mapNode_comp mapSpec_comp option.map_comp comp_def)

lemma mapFile_comp: "mapFile g (mapFile k f) = mapFile (g \<circ> k) f"
  by (simp add: mapFile_def mapDecl_comp comp_def)

lemma map_concat_cong:
  "(\<And>x. x \<in> set xs \<Longrightarrow> map k (A x) = map k (B x)) \<Longrightarrow>
   map k (concat (map A xs)) = map k (concat (map B xs))"
  by (induction xs) simp_all

section \<open>Alias removal\<close>

lemma removeLoop_filter:
  "n \<le> length ds \<Longrightarrow> removeLoop M n ds = Some ds' \<Longrightarrow>
   ds' = filter (\<lambda>d. \<not> removed M d) (take n ds) @ drop n ds"
proof (induction n arbitrary: ds)
  case 0
  then show ?case by simp
next
  case (Suc i)
  then have i: "i < length ds" by simp
  have tk: "take (Suc i) ds = take i ds @ [ds ! i]"
    using i by (simp add: take_Suc_conv_app_nth)
  have dr: "drop i ds = ds ! i # drop (Suc i) ds"
    using i by (simp add: Cons_nth_drop_Suc)
  show ?case
  proof (cases "removed M (ds ! i)")
    case True
    then obtain specs where d: "ds ! i = GenDecl Tok_TYPE specs"
      and r: "removeSpecs M specs = Some True"
      by (cases "ds ! i") auto
    let ?ds2 = "take i ds @ drop (Suc i) ds"
    from Suc.prems(2) d r have "removeLoop M i ?ds2 = Some ds'" by simp
    moreover have "i \<le> length ?ds2" using i by simp
    ultimately have "ds' = filter (\<lambda>d. \<not> removed M d) (take i ?ds2) @ drop i ?ds2"
      by (rule Suc.IH[rotated])
    moreover have "take i ?ds2 = take i ds" using i by simp
    moreover have "drop i ?ds2 = drop (Suc i) ds" using i by simp
    ultimately have "ds' = filter (\<lambda>d. \<not> removed M d) (take i ds) @ drop (Suc i) ds"
      by (simp only:)
    then show ?thesis using True by (simp add: tk)
  next
    case False
    have "removeLoop M i ds = Some ds'"
      using Suc.prems(2) False
      by (cases "ds ! i") (auto split: if_splits option.splits)
    moreover have "i \<le> length ds" using i by simp
    ultimately have "ds' = filter (\<lambda>d. \<not> removed M d) (take i ds) @ drop i ds"
      by (rule Suc.IH[rotated])
    then show ?thesis using False tk dr by simp
  qed
qed

lemma removeSpecs_total: "list_all isTypeSpec specs \<Longrightarrow> removeSpecs M specs \<noteq> None"
  by (induction M specs rule: removeSpecs.induct) auto

lemma removeLoop_total:
  "n \<le> length ds \<Longrightarrow> list_all typeDeclOK ds \<Longrightarrow> removeLoop M n ds \<noteq> None"
proof (induction n arbitrary: ds)
  case 0
  then show ?case by simp
next
  case (Suc i)
  then have i: "i < length ds" by simp
  have ok: "typeDeclOK (ds ! i)" using Suc.prems(2) i by (simp add: list_all_length)
  have ok2: "list_all typeDeclOK (take i ds @ drop (Suc i) ds)"
    using Suc.prems(2) by (auto simp: list_all_iff dest: in_set_takeD in_set_dropD)
  have l2: "i \<le> length (take i ds @ drop (Suc i) ds)" using i by simp
  have l1: "i \<le> length ds" using i by simp
  show ?case
  proof (cases "ds ! i")
    case BadDecl
    then show ?thesis using Suc.IH[OF l1 Suc.prems(2)] by simp
  next
    case (GenDecl tok specs)
    show ?thesis
    proof (cases "tok = Tok_TYPE")
      case True
      then have "removeSpecs M specs \<noteq> None"
        using ok GenDecl by (simp add: removeSpecs_total)
      then obtain r where "removeSpecs M specs = Some r" by blast
      then show ?thesis
        using GenDecl True Suc.IH[OF l1 Suc.prems(2)] Suc.IH[OF l2 ok2] by simp
    next
      case False
      then show ?thesis using GenDecl Suc.IH[OF l1 Suc.prems(2)] by simp
    qed
  next
    case (FuncDecl a recv x ty body)
    then show ?thesis using Suc.IH[OF l1 Suc.prems(2)] by simp
  qed
qed

lemma removeTypeDecl_Some:
  "removeTypeDecl M f = Some f' \<Longrightarrow> f' = f\<lparr>Decls := filter (\<lambda>d. \<not> removed M d) (Decls f)\<rparr>"
  using removeLoop_filter[of "length (Decls f)" "Decls f" M]
  by (auto simp: removeTypeDecl_def)

lemma removeTypeDecl_total:
  "list_all typeDeclOK (Decls f) \<Longrightarrow> removeTypeDecl M f \<noteq> None"
  using removeLoop_total[of "length (Decls f)" "Decls f" M]
  by (simp add: removeTypeDecl_def)

text \<open>
  C10. The alias-removal pass changes nothing but the list of top-level declarations,
  and that list only by deleting whole declarations: whenever the pass returns, the new
  list is the old one filtered (so what stays is unchanged and in its old order), and
  every other field of the file is as before. On a tree that keeps the invariant of
  go/ast (the specs of a type declaration are type specs) the pass does return.
\<close>

theorem removeTypeDecl_only_deletes_declarations:
  "(list_all typeDeclOK (Decls f) \<longrightarrow> removeTypeDecl typeMap f \<noteq> None) \<and>
   (\<forall>f'. removeTypeDecl typeMap f = Some f' \<longrightarrow>
      f' = f\<lparr>Decls := filter (\<lambda>d. \<not> removed typeMap d) (Decls f)\<rparr>)"
  using removeTypeDecl_total[of f typeMap] removeTypeDecl_Some[of typeMap f]
  by blast

theorem removeTypeDecl_only_deletes_declarations_witness:
  "list_all typeDeclOK
     [FuncDecl 1 None \<lparr>Name = ''Push'', Obj = None\<rparr> (Node ''FuncType'' []) None,
      GenDecl Tok_TYPE [TypeSpec 2 \<lparr>Name = ''Item'', Obj = None\<rparr>
                          (IdentN \<lparr>Name = ''int'', Obj = None\<rparr>)],
      GenDecl Tok_TYPE [TypeSpec 3 \<lparr>Name = ''Stack'', Obj = None\<rparr> (Node ''StructType'' [])]] \<and>
   removeTypeDecl [''Item'' \<mapsto> \<lparr>Ident = ''MyRecord'', Import = ''extpkg''\<rparr>]
     \<lparr>PkgName = \<lparr>Name = ''stack'', Obj = None\<rparr>,
      Decls =
        [FuncDecl 1 None \<lparr>Name = ''Push'', Obj = None\<rparr> (Node ''FuncType'' []) None,
         GenDecl Tok_TYPE [TypeSpec 2 \<lparr>Name = ''Item'', Obj = None\<rparr>
                             (IdentN \<lparr>Name = ''int'', Obj = None\<rparr>)],
         GenDecl Tok_TYPE [TypeSpec 3 \<lparr>Name = ''Stack'', Obj = None\<rparr> (Node ''StructType'' [])]]\<rparr>
   = Some \<lparr>PkgName = \<lparr>Name = ''stack'', Obj = None\<rparr>,
      Decls =
        [FuncDecl 1 None \<lparr>Name = ''Push'', Obj = None\<rparr> (Node ''FuncType'' []) None,
         GenDecl Tok_TYPE [TypeSpec 3 \<lparr>Name = ''Stack'', Obj = None\<rparr> (Node ''StructType'' [])]]\<rparr>"
  using removeTypeDecl_only_deletes_declarations
    [of "\<lparr>PkgName = \<lparr>Name = ''stack'', Obj = None\<rparr>,
      Decls =
        [FuncDecl 1 None \<lparr>Name = ''Push'', Obj = None\<rparr> (Node ''FuncType'' []) None,
         GenDecl Tok_TYPE [TypeSpec 2 \<lparr>Name = ''Item'', Obj = None\<rparr>
                             (IdentN \<lparr>Name = ''int'', Obj = None\<rparr>)],
         GenDecl Tok_TYPE [TypeSpec 3 \<lparr>Name = ''Stack'', Obj = None\<rparr> (Node ''StructType'' [])]]\<rparr>"
        "[''Item'' \<mapsto> \<lparr>Ident = ''MyRecord'', Import = ''extpkg''\<rparr>]"]
  by auto

text \<open>
  C1. The pass deletes the declaration as a whole (line 92 drops \<^verbatim>\<open>node.Decls[i]\<close>) as
  soon as one of its specs has a mapped name and a bare type name as its definition.
  In the block \<^verbatim>\<open>type ( Item int; Pair struct{} )\<close> with \<^verbatim>\<open>Item\<close> mapped, the
  struct \<^verbatim>\<open>Pair\<close> is neither mapped nor a bare alias, and it is deleted with the block.
\<close>

theorem removeTypeDecl_deletes_grouped_struct:
  "removeTypeDecl [''Item'' \<mapsto> \<lparr>Ident = ''MyRecord'', Import = ''extpkg''\<rparr>]
     \<lparr>PkgName = \<lparr>Name = ''stack'', Obj = None\<rparr>,
      Decls =
        [GenDecl Tok_TYPE
           [TypeSpec 1 \<lparr>Name = ''Item'', Obj = None\<rparr> (IdentN \<lparr>Name = ''int'', Obj = None\<rparr>),
            TypeSpec 2 \<lparr>Name = ''Pair'', Obj = None\<rparr> (Node ''StructType'' [])]]\<rparr>
   = Some \<lparr>PkgName = \<lparr>Name = ''stack'', Obj = None\<rparr>, Decls = []\<rparr>"
  by (simp add: removeTypeDecl_def)

lemma removeSpecs_True:
  "removeSpecs M specs = Some True \<Longrightarrow>
   \<exists>a x ty. TypeSpec a x ty \<in> set specs \<and> M (Name x) \<noteq> None \<and> isIdent ty"
  by (induction M specs rule: removeSpecs.induct) (auto split: if_splits)

text \<open>
  What the pass deletes, it deletes for an alias: a declaration that is gone from the
  output is a type declaration with a spec whose name is a key of the map and whose
  definition is a bare identifier. A structured type declaration in a block of its own
  stays, whatever its name.
\<close>

theorem removeTypeDecl_deletes_only_alias_blocks:
  assumes "removeTypeDecl typeMap f = Some f'" and "d \<in> set (Decls f)" and "d \<notin> set (Decls f')"
  shows "\<exists>specs a x ty. d = GenDecl Tok_TYPE specs \<and> TypeSpec a x ty \<in> set specs \<and>
           typeMap (Name x) \<noteq> None \<and> isIdent ty"
proof -
  have "Decls f' = filter (\<lambda>d. \<not> removed typeMap d) (Decls f)"
    using removeTypeDecl_Some[OF assms(1)] by simp
  then have "removed typeMap d" using assms(2,3) by auto
  then obtain specs where d: "d = GenDecl Tok_TYPE specs" and r: "removeSpecs typeMap specs = Some True"
    by (cases d) auto
  from removeSpecs_True[OF r] d show ?thesis by blast
qed

text \<open>The template loses \<^verbatim>\<open>type Item int\<close> and keeps the function.\<close>

theorem removeTypeDecl_deletes_only_alias_blocks_witness:
  "removeTypeDecl exampleMap exampleFile = Some processFile \<and>
   GenDecl Tok_TYPE [TypeSpec 1 itemUse (IdentN \<lparr>Name = ''int'', Obj = None\<rparr>)] \<in> set (Decls exampleFile) \<and>
   GenDecl Tok_TYPE [TypeSpec 1 itemUse (IdentN \<lparr>Name = ''int'', Obj = None\<rparr>)] \<notin> set (Decls processFile) \<and>
   exampleMap (Name itemUse) \<noteq> None \<and> isIdent (IdentN \<lparr>Name = ''int'', Obj = None\<rparr>)"
proof -
  have r: "removeTypeDecl exampleMap exampleFile = Some processFile"
    by (simp add: removeTypeDecl_def exampleFile_def processFile_def processDecl_def
        exampleMap_def itemUse_def)
  have i: "GenDecl Tok_TYPE [TypeSpec 1 itemUse (IdentN \<lparr>Name = ''int'', Obj = None\<rparr>)] \<in> set (Decls exampleFile)"
    by (simp add: exampleFile_def)
  have o: "GenDecl Tok_TYPE [TypeSpec 1 itemUse (IdentN \<lparr>Name = ''int'', Obj = None\<rparr>)] \<notin> set (Decls processFile)"
    by (simp add: processFile_def processDecl_def)
  show ?thesis
    using removeTypeDecl_deletes_only_alias_blocks[OF r i o] r i o
    by (simp add: exampleMap_def itemUse_def)
qed

section \<open>Identifier substitution\<close>

lemma rewriteIdentVisit_split:
  "rewriteIdentVisit M x s = (fst (rewriteIdentVisit M x []), snd (rewriteIdentVisit M x s))"
  by (simp add: rewriteIdentVisit_def split: option.splits)

lemma rewriteIdentWalk_eq:
  "rewriteIdentWalk M f =
     (mapFile (\<lambda>x. fst (rewriteIdentVisit M x [])) f,
      fold (\<lambda>x s. snd (rewriteIdentVisit M x s)) (identsFile f) [])"
  unfolding rewriteIdentWalk_def
  by (rule inspectFile_map_fold) (rule rewriteIdentVisit_split)

lemma rewriteIdentVisit_erase:
  "(fst (rewriteIdentVisit M x []))\<lparr>Name := []\<rparr> = x\<lparr>Name := []\<rparr>"
  by (simp add: rewriteIdentVisit_def split: option.splits)










subsection \<open>The import declarations\<close>









text \<open>
  C4. The walk of the substitution pass changes names of identifiers and nothing else
  (the tree with all names erased is the same), and it changes the name of an
  identifier only if the identifier is bound to an object of kind type and its name is a
  key of the map; the new name is then the Target's concrete name. Every other
  identifier, in particular every one whose name is not a key, is left as it was.
\<close>

theorem rewriteIdent_renames_mapped_types_only:
  assumes "rewriteIdentWalk typeMap f = (f', used)"
  shows "rewriteIdent addImport typeMap f = fold addImport used f' \<and>
         mapFile (\<lambda>x. x\<lparr>Name := []\<rparr>) f' = mapFile (\<lambda>x. x\<lparr>Name := []\<rparr>) f \<and>
         length (identsFile f') = length (identsFile f) \<and>
         (\<forall>i<length (identsFile f).
            (case Obj (identsFile f ! i) of
               None \<Rightarrow> identsFile f' ! i = identsFile f ! i
             | Some obj \<Rightarrow>
                 if Kind obj \<noteq> Typ then identsFile f' ! i = identsFile f ! i
                 else (case typeMap (Name (identsFile f ! i)) of
                         None \<Rightarrow> identsFile f' ! i = identsFile f ! i
                       | Some to \<Rightarrow> identsFile f' ! i = (identsFile f ! i)\<lparr>Name := Ident to\<rparr>)))"
proof -
  let ?g = "\<lambda>x. fst (rewriteIdentVisit typeMap x [])"
  have f': "f' = mapFile ?g f" using assms by (simp add: rewriteIdentWalk_eq)
  have "(\<lambda>x. x\<lparr>Name := []\<rparr>) \<circ> ?g = (\<lambda>x. x\<lparr>Name := []\<rparr>)"
    by (rule ext) (simp add: rewriteIdentVisit_erase)
  then have erase: "mapFile (\<lambda>x. x\<lparr>Name := []\<rparr>) f' = mapFile (\<lambda>x. x\<lparr>Name := []\<rparr>) f"
    by (simp add: f' mapFile_comp)
  have ids: "identsFile f' = map ?g (identsFile f)" by (simp add: f' identsFile_mapFile)
  have each: "\<forall>i<length (identsFile f).
            (case Obj (identsFile f ! i) of
               None \<Rightarrow> identsFile f' ! i = identsFile f ! i
             | Some obj \<Rightarrow>
                 if Kind obj \<noteq> Typ then identsFile f' ! i = identsFile f ! i
                 else (case typeMap (Name (identsFile f ! i)) of
                         None \<Rightarrow> identsFile f' ! i = identsFile f ! i
                       | Some to \<Rightarrow> identsFile f' ! i = (identsFile f ! i)\<lparr>Name := Ident to\<rparr>))"
    by (simp add: ids rewriteIdentVisit_def split: option.splits)
  have "rewriteIdent addImport typeMap f = fold addImport used f'"
    using assms by (simp add: rewriteIdent_def)
  then show ?thesis using erase ids each by simp
qed

text \<open>
  In the template the three uses of \<^verbatim>\<open>Item\<close> become \<^verbatim>\<open>MyRecord\<close>; the function and
  its parameter keep their names.
\<close>

theorem rewriteIdent_renames_mapped_types_only_witness:
  "map Name (identsFile exampleFile) =
     [''stack'', ''Item'', ''int'', ''Process'', ''x'', ''Item'', ''Item'', ''Process'', ''x''] \<and>
   map Name (identsFile (fst (rewriteIdentWalk exampleMap exampleFile))) =
     [''stack'', ''MyRecord'', ''int'', ''Process'', ''x'', ''MyRecord'', ''MyRecord'', ''Process'', ''x''] \<and>
   identsFile (fst (rewriteIdentWalk exampleMap exampleFile)) ! 1 = itemUse\<lparr>Name := ''MyRecord''\<rparr> \<and>
   identsFile (fst (rewriteIdentWalk exampleMap exampleFile)) ! 3 = processUse"
proof -
  have ids: "identsFile exampleFile =
      [\<lparr>Name = ''stack'', Obj = None\<rparr>, itemUse, \<lparr>Name = ''int'', Obj = None\<rparr>,
       processUse, xUse, itemUse, itemUse, processUse, xUse]"
    by (simp add: identsFile_def exampleFile_def processDecl_def)
  have w: "rewriteIdentWalk exampleMap exampleFile =
      (fst (rewriteIdentWalk exampleMap exampleFile), snd (rewriteIdentWalk exampleMap exampleFile))"
    by simp
  note t = rewriteIdent_renames_mapped_types_only[OF w, of "\<lambda>im f. f"]
  from t have each: "\<forall>i<length (identsFile exampleFile).
            (case Obj (identsFile exampleFile ! i) of
               None \<Rightarrow> identsFile (fst (rewriteIdentWalk exampleMap exampleFile)) ! i = identsFile exampleFile ! i
             | Some obj \<Rightarrow>
                 if Kind obj \<noteq> Typ then identsFile (fst (rewriteIdentWalk exampleMap exampleFile)) ! i = identsFile exampleFile ! i
                 else (case exampleMap (Name (identsFile exampleFile ! i)) of
                         None \<Rightarrow> identsFile (fst (rewriteIdentWalk exampleMap exampleFile)) ! i = identsFile exampleFile ! i
                       | Some to \<Rightarrow> identsFile (fst (rewriteIdentWalk exampleMap exampleFile)) ! i = (identsFile exampleFile ! i)\<lparr>Name := Ident to\<rparr>))"
    by blast
  have one: "identsFile (fst (rewriteIdentWalk exampleMap exampleFile)) ! 1 = itemUse\<lparr>Name := ''MyRecord''\<rparr>"
    using each[rule_format, of 1] by (simp add: ids itemUse_def exampleMap_def)
  have three: "identsFile (fst (rewriteIdentWalk exampleMap exampleFile)) ! 3 = processUse"
    using each[rule_format, of 3] by (simp add: ids processUse_def)
  have names: "map Name (identsFile (fst (rewriteIdentWalk exampleMap exampleFile))) =
     [''stack'', ''MyRecord'', ''int'', ''Process'', ''x'', ''MyRecord'', ''MyRecord'', ''Process'', ''x'']"
    by (simp add: rewriteIdentWalk_eq identsFile_mapFile ids rewriteIdentVisit_def
        exampleMap_def itemUse_def processUse_def xUse_def)
  show ?thesis using one three names by (simp add: ids itemUse_def processUse_def xUse_def)
qed

section \<open>Prefixing of top-level identifiers\<close>

lemma assigned_append [simp]: "assigned L p (ts @ us) = assigned L p ts @ assigned L p us"
  by (simp add: assigned_def)

lemma assigned_Nil [simp]: "assigned L p [] = []"
  by (simp add: assigned_def)

lemma assigned_concat: "assigned L p (concat tss) = concat (map (assigned L p) tss)"
  by (induction tss) simp_all

lemma prefixNames_eq:
  "mapAccum (prefixName L p a) names dm =
     (map (\<lambda>x. x\<lparr>Name := prefixIdent L p (Name x)\<rparr>) names,
      fold assign (assigned L p (map (\<lambda>x. (a, x, False)) names)) dm)"
  by (induction names arbitrary: dm) (simp_all add: prefixName_def assigned_def assign_def)

lemma prefixSpec_eq:
  "prefixSpec L p M sp dm =
     (fst (prefixSpec L p M sp Map.empty), fold assign (assigned L p (topLevelSpec M sp)) dm)"
  by (cases sp) (simp_all add: prefixNames_eq prefixName_def assigned_def assign_def)

lemma prefixSpecs_eq:
  "mapAccum (prefixSpec L p M) specs dm =
     (map (\<lambda>sp. fst (prefixSpec L p M sp Map.empty)) specs,
      fold assign (assigned L p (concat (map (topLevelSpec M) specs))) dm)"
proof -
  have "mapAccum (prefixSpec L p M) specs dm =
     (map (\<lambda>sp. fst (prefixSpec L p M sp Map.empty)) specs,
      fold assign (concat (map (\<lambda>sp. assigned L p (topLevelSpec M sp)) specs)) dm)"
    by (rule mapAccum_map_fold) (rule prefixSpec_eq)
  then show ?thesis by (simp add: assigned_concat comp_def)
qed

lemma prefixDecl_eq:
  "prefixDecl L p M d dm =
     (fst (prefixDecl L p M d Map.empty), fold assign (assigned L p (topLevel M d)) dm)"
  by (cases d) (simp_all add: prefixSpecs_eq prefixName_def assigned_def assign_def)

lemma prefixDecls_eq:
  "prefixDecls L p M f =
     (f\<lparr>Decls := map (\<lambda>d. fst (prefixDecl L p M d Map.empty)) (Decls f)\<rparr>,
      fold assign (assigned L p (concat (map (topLevel M) (Decls f)))) Map.empty)"
proof -
  have "mapAccum (prefixDecl L p M) (Decls f) Map.empty =
     (map (\<lambda>d. fst (prefixDecl L p M d Map.empty)) (Decls f),
      fold assign (concat (map (\<lambda>d. assigned L p (topLevel M d)) (Decls f))) Map.empty)"
    by (rule mapAccum_map_fold) (rule prefixDecl_eq)
  then show ?thesis by (simp add: prefixDecls_def assigned_concat comp_def)
qed

lemma fold_assign: "fold assign us m = m ++ map_of (rev us)"
proof (induction us arbitrary: m)
  case Nil
  then show ?case by simp
next
  case (Cons u us)
  have "fold assign (u # us) m = assign u m ++ map_of (rev us)"
    by (simp add: Cons.IH)
  also have "assign u m = m ++ map_of [u]"
    by (cases u) (simp add: assign_def)
  finally have "fold assign (u # us) m = (m ++ map_of [u]) ++ map_of (rev us)" .
  then show ?case by (simp only: rev.simps map_of_append map_add_assoc)
qed

lemma renameUse_split: "renameUse dm x u = (fst (renameUse dm x ()), u)"
  by (simp add: renameUse_def split: option.splits)

lemma rewriteTopLevelIdent_eq:
  "rewriteTopLevelIdent L p M f =
     mapFile (\<lambda>x. fst (renameUse (map_of (rev (assigned L p (concat (map (topLevel M) (Decls f)))))) x ()))
       (f\<lparr>Decls := map (\<lambda>d. fst (prefixDecl L p M d Map.empty)) (Decls f)\<rparr>)"
proof -
  let ?dm = "map_of (rev (assigned L p (concat (map (topLevel M) (Decls f)))))"
  have "inspectFile (renameUse ?dm) g () = (mapFile (\<lambda>x. fst (renameUse ?dm x ())) g, fold (\<lambda>x u. u) (identsFile g) ())" for g
    by (rule inspectFile_map_fold) (rule renameUse_split)
  then show ?thesis
    by (simp add: rewriteTopLevelIdent_def prefixDecls_eq fold_assign)
qed

lemma prefixSpec_Obj:
  "map Obj (identsSpec (fst (prefixSpec L p M sp dm))) = map Obj (identsSpec sp)"
proof (cases sp)
  case (ImportSpec x path)
  then show ?thesis by simp
next
  case (ValueSpec a names ty vals)
  then show ?thesis by (simp add: prefixNames_eq comp_def)
next
  case (TypeSpec a x ty)
  then show ?thesis by (simp add: prefixName_def)
qed

lemma prefixDecl_Obj:
  "map Obj (identsDecl (fst (prefixDecl L p M d dm))) = map Obj (identsDecl d)"
proof (cases d)
  case BadDecl
  then show ?thesis by simp
next
  case (GenDecl tok specs)
  have "map Obj (concat (map (\<lambda>sp. identsSpec (fst (prefixSpec L p M sp Map.empty))) specs)) =
        map Obj (concat (map identsSpec specs))"
    by (rule map_concat_cong) (rule prefixSpec_Obj)
  then show ?thesis using GenDecl by (simp add: prefixSpecs_eq comp_def)
next
  case (FuncDecl a recv x ty body)
  then show ?thesis by (simp add: prefixName_def)
qed

lemma prefixDecls_Obj:
  "map Obj (identsFile (f\<lparr>Decls := map (\<lambda>d. fst (prefixDecl L p M d Map.empty)) (Decls f)\<rparr>)) =
   map Obj (identsFile f)"
proof -
  have "map Obj (concat (map (\<lambda>d. identsDecl (fst (prefixDecl L p M d Map.empty))) (Decls f))) =
        map Obj (concat (map identsDecl (Decls f)))"
    by (rule map_concat_cong) (rule prefixDecl_Obj)
  then show ?thesis by (simp add: identsFile_def comp_def)
qed

text \<open>
  An identifier bound to an address that the map holds gets the name stored there.
\<close>

lemma rewriteTopLevelIdent_bound:
  assumes k: "k < length (identsFile f)"
    and b: "boundTo a (identsFile f ! k)"
    and dm: "map_of (rev (assigned L p (concat (map (topLevel M) (Decls f))))) a = Some n"
  shows "Name (identsFile (rewriteTopLevelIdent L p M f) ! k) = n"
proof -
  let ?dm = "map_of (rev (assigned L p (concat (map (topLevel M) (Decls f)))))"
  let ?f1 = "f\<lparr>Decls := map (\<lambda>d. fst (prefixDecl L p M d Map.empty)) (Decls f)\<rparr>"
  have objs: "map Obj (identsFile ?f1) = map Obj (identsFile f)" by (rule prefixDecls_Obj)
  then have len: "length (identsFile ?f1) = length (identsFile f)" by (rule map_eq_imp_length_eq)
  have "Obj (identsFile ?f1 ! k) = Obj (identsFile f ! k)"
    using objs k len by (metis nth_map)
  then have "boundTo a (identsFile ?f1 ! k)" using b by (simp add: boundTo_def)
  then have "Name (fst (renameUse ?dm (identsFile ?f1 ! k) ())) = n"
    using dm by (auto simp: boundTo_def renameUse_def split: option.splits)
  then show ?thesis
    using k len by (simp add: rewriteTopLevelIdent_eq identsFile_mapFile)
qed

lemma rewriteTopLevelIdent_length:
  "length (identsFile (rewriteTopLevelIdent L p M f)) = length (identsFile f)"
  using prefixDecls_Obj[where f=f and L=L and p=p and M=M, THEN map_eq_imp_length_eq]
  by (simp add: rewriteTopLevelIdent_eq identsFile_mapFile)

subsection \<open>The last assignment to a key wins\<close>








subsection \<open>Declarations with one name each\<close>

lemma declMap_distinct:
  assumes dist: "distinct (map fst ts)" and t: "(a, x, skip) \<in> set ts"
  shows "map_of (rev (assigned L p ts)) a =
           (if skip then None else Some (prefixIdent L p (Name x)))"
proof -
  have inj: "inj_on fst (set ts)" using dist by (simp add: distinct_map)
  have keys: "map fst (assigned L p ts) = map fst (filter (\<lambda>t. \<not> snd (snd t)) ts)"
    by (simp add: assigned_def comp_def)
  have "distinct (map fst (filter (\<lambda>t. \<not> snd (snd t)) ts))"
    using dist by (rule distinct_map_filter)
  then have d2: "distinct (map fst (rev (assigned L p ts)))"
    by (simp add: keys rev_map[symmetric])
  show ?thesis
  proof (cases skip)
    case True
    have "a \<notin> fst ` set (assigned L p ts)"
    proof
      assume "a \<in> fst ` set (assigned L p ts)"
      then obtain t' where t': "t' \<in> set ts" "\<not> snd (snd t')" "fst t' = a"
        by (auto simp: assigned_def)
      then have "t' = (a, x, skip)" using inj_onD[OF inj, of t' "(a, x, skip)"] t by simp
      then show False using t' True by simp
    qed
    then have "map_of (rev (assigned L p ts)) a = None"
      by (simp add: map_of_eq_None_iff)
    then show ?thesis using True by simp
  next
    case False
    then have "(a, prefixIdent L p (Name x)) \<in> set (rev (assigned L p ts))"
      using t by (force simp: assigned_def)
    then have "map_of (rev (assigned L p ts)) a = Some (prefixIdent L p (Name x))"
      using d2 by (simp only: map_of_eq_Some_iff)
    then show ?thesis using False by simp
  qed
qed

lemma renameUse_unbound: "Obj y = None \<Longrightarrow> fst (renameUse dm y ()) = y"
  by (simp add: renameUse_def)

lemma renameUse_bound_None: "boundTo a y \<Longrightarrow> dm a = None \<Longrightarrow> fst (renameUse dm y ()) = y"
  by (auto simp: renameUse_def boundTo_def split: option.splits)

lemma renameUse_bound_Some:
  "boundTo a y \<Longrightarrow> dm a = Some n \<Longrightarrow> fst (renameUse dm y ()) = y\<lparr>Name := n\<rparr>"
  by (auto simp: renameUse_def boundTo_def split: option.splits)

text \<open>
  The name of a declaring identifier after both phases.
\<close>

lemma declared_name:
  assumes own: "Obj x = None \<or> boundTo a x"
    and dm: "dm a = (if skip then None else Some (prefixIdent L p (Name x)))"
  shows "Name (fst (renameUse dm (if skip then x else x\<lparr>Name := prefixIdent L p (Name x)\<rparr>) ())) =
           (if skip then Name x else prefixIdent L p (Name x))"
proof (cases "Obj x = None")
  case True
  then show ?thesis by (simp add: renameUse_unbound)
next
  case False
  then have b: "boundTo a x" using own by auto
  show ?thesis
  proof (cases skip)
    case True
    then show ?thesis using b dm by (simp add: renameUse_bound_None)
  next
    case False
    have "boundTo a (x\<lparr>Name := prefixIdent L p (Name x)\<rparr>)" using b by (simp add: boundTo_def)
    then show ?thesis using False dm by (simp add: renameUse_bound_Some)
  qed
qed

lemma spec_names_after:
  assumes "\<And>a x skip. (a, x, skip) \<in> set (topLevelSpec M sp) \<Longrightarrow>
             (Obj x = None \<or> boundTo a x) \<and>
             dm a = (if skip then None else Some (prefixIdent L p (Name x)))"
  shows "specNames (mapSpec (\<lambda>x. fst (renameUse dm x ())) (fst (prefixSpec L p M sp Map.empty))) =
           map (\<lambda>(a, x, skip). if skip then Name x else prefixIdent L p (Name x)) (topLevelSpec M sp)"
proof (cases sp)
  case (ImportSpec x path)
  then show ?thesis by simp
next
  case (ValueSpec a names ty vals)
  have "Name (fst (renameUse dm (x\<lparr>Name := prefixIdent L p (Name x)\<rparr>) ())) = prefixIdent L p (Name x)"
    if "x \<in> set names" for x
    using declared_name[of x a dm False L p] assms[of a x False] that ValueSpec by simp
  then show ?thesis using ValueSpec by (simp add: prefixNames_eq comp_def)
next
  case (TypeSpec a x ty)
  show ?thesis
    using declared_name[of x a dm "alreadyRewritten M x" L p] assms[of a x "alreadyRewritten M x"] TypeSpec
    by (cases "alreadyRewritten M x") (simp_all add: prefixName_def)
qed

lemma decl_names_after:
  assumes "\<And>a x skip. (a, x, skip) \<in> set (topLevel M d) \<Longrightarrow>
             (Obj x = None \<or> boundTo a x) \<and>
             dm a = (if skip then None else Some (prefixIdent L p (Name x)))"
  shows "declaredNames (mapDecl (\<lambda>x. fst (renameUse dm x ())) (fst (prefixDecl L p M d Map.empty))) =
           map (\<lambda>(a, x, skip). if skip then Name x else prefixIdent L p (Name x)) (topLevel M d)"
proof (cases d)
  case BadDecl
  then show ?thesis by simp
next
  case (GenDecl tok specs)
  have "specNames (mapSpec (\<lambda>x. fst (renameUse dm x ())) (fst (prefixSpec L p M sp Map.empty))) =
           map (\<lambda>(a, x, skip). if skip then Name x else prefixIdent L p (Name x)) (topLevelSpec M sp)"
    if sp: "sp \<in> set specs" for sp
  proof (rule spec_names_after)
    fix a x skip
    assume "(a, x, skip) \<in> set (topLevelSpec M sp)"
    then have "(a, x, skip) \<in> set (topLevel M d)" using sp GenDecl by auto
    then show "(Obj x = None \<or> boundTo a x) \<and>
             dm a = (if skip then None else Some (prefixIdent L p (Name x)))"
      by (rule assms)
  qed
  then show ?thesis using GenDecl
    by (simp add: prefixSpecs_eq comp_def map_concat cong: map_cong)
next
  case (FuncDecl a recv x ty body)
  show ?thesis
  proof (cases recv)
    case None
    then show ?thesis
      using declared_name[of x a dm False L p] assms[of a x False] FuncDecl
      by (simp add: prefixName_def)
  next
    case (Some r)
    then show ?thesis using FuncDecl by simp
  qed
qed

text \<open>
  What the pass does within one file. Take a file whose top-level declarations have
  different addresses and one name each, and whose declaring identifiers are unbound or
  bound to their own declaration (as the parser leaves them). After the pass, every
  top-level function without receiver, type spec and value spec is named
  \<^verbatim>\<open>lintName(prefix + "_" + name)\<close>, except a type spec whose identifier is bound to a
  type whose name is a key of the map and whose current name is that key's concrete name,
  which keeps its name; and every identifier of this file that is bound to a renamed
  declaration has the declaration's new name.
\<close>

theorem rewriteTopLevelIdent_prefixes_top_level:
  assumes dist: "distinct (map fst (concat (map (topLevel typeMap) (Decls f))))"
    and own: "\<forall>(a, x, skip) \<in> set (concat (map (topLevel typeMap) (Decls f))).
                Obj x = None \<or> boundTo a x"
  shows "map declaredNames (Decls (rewriteTopLevelIdent lintName prefix typeMap f)) =
           map (\<lambda>d. map (\<lambda>(a, x, skip). if skip then Name x
                                        else prefixIdent lintName prefix (Name x))
                      (topLevel typeMap d)) (Decls f) \<and>
         length (identsFile (rewriteTopLevelIdent lintName prefix typeMap f)) =
           length (identsFile f) \<and>
         (\<forall>(a, x, skip) \<in> set (concat (map (topLevel typeMap) (Decls f))).
            \<not> skip \<longrightarrow>
            (\<forall>k<length (identsFile f). boundTo a (identsFile f ! k) \<longrightarrow>
               Name (identsFile (rewriteTopLevelIdent lintName prefix typeMap f) ! k) =
                 prefixIdent lintName prefix (Name x)))"
proof -
  let ?ts = "concat (map (topLevel typeMap) (Decls f))"
  let ?dm = "map_of (rev (assigned lintName prefix ?ts))"
  have dm: "?dm a = (if skip then None else Some (prefixIdent lintName prefix (Name x)))"
    if "(a, x, skip) \<in> set ?ts" for a x skip
    using dist that by (rule declMap_distinct)
  have names: "declaredNames (mapDecl (\<lambda>x. fst (renameUse ?dm x ()))
                  (fst (prefixDecl lintName prefix typeMap d Map.empty))) =
           map (\<lambda>(a, x, skip). if skip then Name x else prefixIdent lintName prefix (Name x))
             (topLevel typeMap d)"
    if d: "d \<in> set (Decls f)" for d
  proof (rule decl_names_after)
    fix a x skip
    assume "(a, x, skip) \<in> set (topLevel typeMap d)"
    then have "(a, x, skip) \<in> set ?ts" using d by auto
    then show "(Obj x = None \<or> boundTo a x) \<and>
        ?dm a = (if skip then None else Some (prefixIdent lintName prefix (Name x)))"
      using own dm by blast
  qed
  have part1: "map declaredNames (Decls (rewriteTopLevelIdent lintName prefix typeMap f)) =
           map (\<lambda>d. map (\<lambda>(a, x, skip). if skip then Name x
                                        else prefixIdent lintName prefix (Name x))
                      (topLevel typeMap d)) (Decls f)"
    using names by (simp add: rewriteTopLevelIdent_eq mapFile_def comp_def cong: map_cong)
  have part3: "\<forall>(a, x, skip) \<in> set ?ts. \<not> skip \<longrightarrow>
            (\<forall>k<length (identsFile f). boundTo a (identsFile f ! k) \<longrightarrow>
               Name (identsFile (rewriteTopLevelIdent lintName prefix typeMap f) ! k) =
                 prefixIdent lintName prefix (Name x))"
  proof (clarify)
    fix a x skip k
    assume t: "(a, x, skip) \<in> set ?ts" and ns: "\<not> skip"
      and k: "k < length (identsFile f)" and b: "boundTo a (identsFile f ! k)"
    have "?dm a = Some (prefixIdent lintName prefix (Name x))" using dm[OF t] ns by simp
    with k b show "Name (identsFile (rewriteTopLevelIdent lintName prefix typeMap f) ! k) =
                 prefixIdent lintName prefix (Name x)"
      by (rule rewriteTopLevelIdent_bound)
  qed
  show ?thesis using part1 part3 rewriteTopLevelIdent_length by blast
qed

text \<open>
  With the prefix \<^verbatim>\<open>gen\<close> and a \<^verbatim>\<open>lintName\<close> that changes nothing, in the
  template whose struct \<^verbatim>\<open>Item\<close> was renamed \<^verbatim>\<open>MyRecord\<close> by the substitution:
  the type keeps the name \<^verbatim>\<open>MyRecord\<close>, the function \<^verbatim>\<open>Process\<close> is declared as
  \<^verbatim>\<open>gen_Process\<close>, and the call in its body (identifier 5 of the file) names
  \<^verbatim>\<open>gen_Process\<close>.
\<close>

theorem rewriteTopLevelIdent_prefixes_top_level_witness:
  "distinct (map fst (concat (map (topLevel exampleMap) (Decls keptTypeFile)))) \<and>
   map declaredNames (Decls keptTypeFile) = [[''MyRecord''], [''Process'']] \<and>
   map declaredNames (Decls (rewriteTopLevelIdent (\<lambda>n. n) ''gen'' exampleMap keptTypeFile)) =
     [[''MyRecord''], [''gen_Process'']] \<and>
   boundTo 2 (identsFile keptTypeFile ! 5) \<and>
   Name (identsFile (rewriteTopLevelIdent (\<lambda>n. n) ''gen'' exampleMap keptTypeFile) ! 5) =
     ''gen_Process''"
proof -
  have d: "distinct (map fst (concat (map (topLevel exampleMap) (Decls keptTypeFile))))"
    by (simp add: keptTypeFile_def)
  have o: "\<forall>(a, x, skip) \<in> set (concat (map (topLevel exampleMap) (Decls keptTypeFile))).
             Obj x = None \<or> boundTo a x"
    by (simp add: keptTypeFile_def myRecordUse_def processUse_def boundTo_def)
  note t = rewriteTopLevelIdent_prefixes_top_level[OF d o, of "\<lambda>n. n" "''gen''"]
  have before: "map declaredNames (Decls keptTypeFile) = [[''MyRecord''], [''Process'']]"
    by (simp add: keptTypeFile_def myRecordUse_def processUse_def)
  have ids: "identsFile keptTypeFile =
      [\<lparr>Name = ''stack'', Obj = None\<rparr>, myRecordUse, processUse, xUse, myRecordUse, processUse, xUse]"
    by (simp add: identsFile_def keptTypeFile_def)
  have b: "boundTo 2 (identsFile keptTypeFile ! 5)"
    by (simp add: ids boundTo_def processUse_def)
  have m: "(2, processUse, False) \<in> set (concat (map (topLevel exampleMap) (Decls keptTypeFile)))"
    by (simp add: keptTypeFile_def)
  from t have "map declaredNames (Decls (rewriteTopLevelIdent (\<lambda>n. n) ''gen'' exampleMap keptTypeFile)) =
      map (\<lambda>d. map (\<lambda>(a, x, skip). if skip then Name x else prefixIdent (\<lambda>n. n) ''gen'' (Name x))
                      (topLevel exampleMap d)) (Decls keptTypeFile)"
    by blast
  then have n: "map declaredNames (Decls (rewriteTopLevelIdent (\<lambda>n. n) ''gen'' exampleMap keptTypeFile)) =
     [[''MyRecord''], [''gen_Process'']]"
    by (simp add: keptTypeFile_def myRecordUse_def processUse_def prefixIdent_def
        alreadyRewritten_def exampleMap_def)
  from t m have "\<forall>k<length (identsFile keptTypeFile). boundTo 2 (identsFile keptTypeFile ! k) \<longrightarrow>
      Name (identsFile (rewriteTopLevelIdent (\<lambda>n. n) ''gen'' exampleMap keptTypeFile) ! k) =
        prefixIdent (\<lambda>n. n) ''gen'' (Name processUse)"
    by fast
  then have "Name (identsFile (rewriteTopLevelIdent (\<lambda>n. n) ''gen'' exampleMap keptTypeFile) ! 5) =
        prefixIdent (\<lambda>n. n) ''gen'' (Name processUse)"
    using b by (simp add: ids)
  then show ?thesis using d before n b by (simp add: prefixIdent_def processUse_def)
qed

text \<open>
  C2. The comment of the pass promises a prefix for "top-level identifiers and their
  uses", and the uses of a package are bound across its files (\<^verbatim>\<open>ast.NewPackage\<close>,
  line 259); but the pass runs on one file at a time, with a \<^verbatim>\<open>declMap\<close> of that
  file's declarations only. In a package of two files, \<^verbatim>\<open>func Process\<close> in the first
  and a call of it from \<^verbatim>\<open>func Run\<close> in the second, with the prefix \<^verbatim>\<open>gen\<close>: the
  first file declares \<^verbatim>\<open>lintName("gen_Process")\<close>, and the call in the second file
  still names \<^verbatim>\<open>Process\<close>, which nothing declares any more. And in
  \<^verbatim>\<open>var a, b = 1, 2\<close> the declaration of \<^verbatim>\<open>a\<close> does not get the prefixed name of
  \<^verbatim>\<open>a\<close>: both names of the spec end as \<^verbatim>\<open>lintName("gen_b")\<close>.
\<close>

theorem rewriteTopLevelIdent_misses_uses:
  "map declaredNames (Decls (rewriteTopLevelIdent lintName ''gen'' exampleMap processFile)) =
     [[lintName ''gen_Process'']] \<and>
   map Name (identsFile (rewriteTopLevelIdent lintName ''gen'' exampleMap callerFile)) =
     [''stack'', lintName ''gen_Run'', ''Process''] \<and>
   map declaredNames (Decls (rewriteTopLevelIdent lintName ''gen'' exampleMap varFile)) =
     [[lintName ''gen_b'', lintName ''gen_b''], [lintName ''gen_Use'']]"
  by (simp add: example_defs rewriteTopLevelIdent_def prefixDecls_def inspectFile_def
      identsFile_def prefixName_def prefixIdent_def renameUse_def)

section \<open>The run\<close>

subsection \<open>Traces\<close>

lemma dump_calls: "map fst (dump X tc tr) = map fst tr @ map (\<lambda>f. Stderr (Some f)) tc"
  by (induction tc arbitrary: tr) (simp_all add: perform_def)

lemma runDeferred_extends: "\<exists>ext. runDeferred X opened tr = tr @ ext \<and> map fst ext = map Close opened"
proof (induction opened arbitrary: tr)
  case Nil
  then show ?case by simp
next
  case (Cons p opened)
  obtain ext where "runDeferred X opened (snd (perform X (Close p) tr)) = snd (perform X (Close p) tr) @ ext"
    and "map fst ext = map Close opened"
    using Cons.IH by blast
  then show ?case by (simp add: perform_def)
qed

lemma emitLoop_ok:
  "emitLoop X dst fs opened tr = (None, opened', tr') \<Longrightarrow>
   (\<exists>ext. tr' = tr @ ext \<and> map fst ext = writes dst fs \<and> list_all (\<lambda>ce. snd ce = None) ext) \<and>
   opened' = rev (map (\<lambda>pf. dst (fst pf)) fs) @ opened"
proof (induction fs arbitrary: opened tr)
  case Nil
  then show ?case by (simp add: writes_def)
next
  case (Cons pf fs)
  obtain path f where pf: "pf = (path, f)" by (cases pf)
  let ?tr1 = "tr @ [(Create (dst path), None)]"
  let ?tr2 = "?tr1 @ [(FormatNode (dst path) f, None)]"
  from Cons.prems pf have c: "OsError X tr (Create (dst path)) = None"
    by (auto simp: perform_def split: option.splits)
  with Cons.prems pf have fm: "OsError X ?tr1 (FormatNode (dst path) f) = None"
    by (auto simp: perform_def split: option.splits)
  with Cons.prems pf c have rest: "emitLoop X dst fs (dst path # opened) ?tr2 = (None, opened', tr')"
    by (simp add: perform_def)
  from Cons.IH[OF rest] obtain ext where
    ext: "tr' = ?tr2 @ ext" "map fst ext = writes dst fs" "list_all (\<lambda>ce. snd ce = None) ext"
    and op: "opened' = rev (map (\<lambda>pf. dst (fst pf)) fs) @ dst path # opened"
    by blast
  let ?ext = "[(Create (dst path), None), (FormatNode (dst path) f, None)] @ ext"
  have "tr' = tr @ ?ext" using ext(1) by simp
  moreover have "map fst ?ext = writes dst (pf # fs)" using ext(2) pf by (simp add: writes_def)
  moreover have "list_all (\<lambda>ce. snd ce = None) ?ext" using ext(3) by simp
  ultimately show ?case using op pf by auto
qed

lemma emitLoop_err:
  "emitLoop X dst fs opened tr = (Some err, opened', tr') \<Longrightarrow>
   \<exists>ext c. tr' = tr @ ext @ [(c, Some err)] \<and>
     (\<exists>pf \<in> set fs. c = Create (dst (fst pf)) \<or> c = FormatNode (dst (fst pf)) (snd pf))"
proof (induction fs arbitrary: opened tr)
  case Nil
  then show ?case by simp
next
  case (Cons pf fs)
  obtain path f where pf: "pf = (path, f)" by (cases pf)
  let ?tr1 = "tr @ [(Create (dst path), None)]"
  let ?tr2 = "?tr1 @ [(FormatNode (dst path) f, None)]"
  show ?case
  proof (cases "OsError X tr (Create (dst path))")
    case (Some e)
    then have "tr' = tr @ [] @ [(Create (dst path), Some err)]"
      using Cons.prems pf by (auto simp: perform_def)
    then show ?thesis using pf
      by (intro exI[of _ "[]"] exI[of _ "Create (dst path)"]) auto
  next
    case None
    note c = None
    show ?thesis
    proof (cases "OsError X ?tr1 (FormatNode (dst path) f)")
      case (Some e)
      then have "tr' = tr @ [(Create (dst path), None)] @ [(FormatNode (dst path) f, Some err)]"
        using Cons.prems pf c by (auto simp: perform_def)
      then show ?thesis using pf
        by (intro exI[of _ "[(Create (dst path), None)]"] exI[of _ "FormatNode (dst path) f"]) auto
    next
      case None
      then have rest: "emitLoop X dst fs (dst path # opened) ?tr2 = (Some err, opened', tr')"
        using Cons.prems pf c by (simp add: perform_def)
      from Cons.IH[OF rest] obtain ext c' where
        e: "tr' = ?tr2 @ ext @ [(c', Some err)]"
        and w: "\<exists>pf \<in> set fs. c' = Create (dst (fst pf)) \<or> c' = FormatNode (dst (fst pf)) (snd pf)"
        by blast
      have "tr' = tr @ ([(Create (dst path), None), (FormatNode (dst path) f, None)] @ ext) @ [(c', Some err)]"
        using e by simp
      then show ?thesis using w
        by (intro exI[of _ "[(Create (dst path), None), (FormatNode (dst path) f, None)] @ ext"]
              exI[of _ c']) auto
    qed
  qed
qed

lemma emitLoop_calls:
  "emitLoop X dst fs opened tr = (r, opened', tr') \<Longrightarrow>
   \<exists>ext. tr' = tr @ ext \<and>
     (\<forall>c \<in> fst ` set ext. \<exists>pf \<in> set fs. c = Create (dst (fst pf)) \<or> c = FormatNode (dst (fst pf)) (snd pf))"
proof (induction fs arbitrary: opened tr)
  case Nil
  then show ?case by simp
next
  case (Cons pf fs)
  obtain path f where pf: "pf = (path, f)" by (cases pf)
  let ?tr1 = "tr @ [(Create (dst path), None)]"
  let ?tr2 = "?tr1 @ [(FormatNode (dst path) f, None)]"
  show ?case
  proof (cases "OsError X tr (Create (dst path))")
    case (Some e)
    then have "tr' = tr @ [(Create (dst path), Some e)]"
      using Cons.prems pf by (auto simp: perform_def)
    then show ?thesis using pf by auto
  next
    case None
    note c = None
    show ?thesis
    proof (cases "OsError X ?tr1 (FormatNode (dst path) f)")
      case (Some e)
      then have "tr' = tr @ [(Create (dst path), None), (FormatNode (dst path) f, Some e)]"
        using Cons.prems pf c by (auto simp: perform_def)
      then show ?thesis using pf by auto
    next
      case None
      then have rest: "emitLoop X dst fs (dst path # opened) ?tr2 = (r, opened', tr')"
        using Cons.prems pf c by (simp add: perform_def)
      from Cons.IH[OF rest] obtain ext where
        e: "tr' = ?tr2 @ ext"
        and w: "\<forall>c \<in> fst ` set ext. \<exists>pf \<in> set fs. c = Create (dst (fst pf)) \<or> c = FormatNode (dst (fst pf)) (snd pf)"
        by blast
      have "tr' = tr @ ([(Create (dst path), None), (FormatNode (dst path) f, None)] @ ext)"
        using e by simp
      moreover have "\<forall>c \<in> fst ` set ([(Create (dst path), None), (FormatNode (dst path) f, None)] @ ext).
          \<exists>pf \<in> set (pf # fs). c = Create (dst (fst pf)) \<or> c = FormatNode (dst (fst pf)) (snd pf)"
        using w pf by auto
      ultimately show ?thesis by blast
    qed
  qed
qed

lemma rangeOver_set: "set (rangeOver X k files) = set files"
  by (simp add: rangeOver_def)

lemma rangeOver_length: "length (rangeOver X k files) = length files"
  by (simp add: rangeOver_def)

text \<open>
  C5. When the trees are prepared and the checker rejects them, the run returns the
  checker's error, and all it has done to the outside is to write every tree under check
  to \<^verbatim>\<open>os.Stderr\<close>, in order: no directory is removed or made and no file is created,
  in either mode.
\<close>

theorem RewritePackage_check_failure:
  assumes "prepare X pkgPath newPkgPath typeMap = Inr (pt, files, tc)"
    and "Check X tc = Some err"
  shows "fst (RewritePackage X pkgPath newPkgPath typeMap) = Some err \<and>
         map fst (snd (RewritePackage X pkgPath newPkgPath typeMap)) =
           map (\<lambda>f. Stderr (Some f)) tc"
  using assms by (simp add: RewritePackage_def dump_calls)

subsection \<open>What is prepared\<close>

lemma set_update_sub: "set (AList.update k v al) \<subseteq> insert (k, v) (set al)"
  by (induction al) auto

lemma loadSource_inv:
  assumes "loadSource X path s = Inr s'"
    and "distinct (map fst s)" and "\<forall>pf \<in> set s. ParseFile X (fst pf) = Inr (snd pf)"
  shows "distinct (map fst s') \<and> (\<forall>pf \<in> set s'. ParseFile X (fst pf) = Inr (snd pf))"
proof -
  from assms(1) obtain f where f: "ParseFile X path = Inr f" and s': "s' = AList.update path f s"
    by (auto simp: loadSource_def split: sum.splits)
  have "distinct (map fst s')" using assms(2) s' by (simp add: distinct_update)
  moreover have "\<forall>pf \<in> set s'. ParseFile X (fst pf) = Inr (snd pf)"
    using set_update_sub[of path f s] assms(3) f s' by auto
  ultimately show ?thesis by simp
qed

lemma walkEntries_Cons:
  "walkEntries dir sf ((name, isDir) # fi) s =
     (if isDir \<or> \<not> HasSuffix (dir @ ''/'' @ name) ''.go'' \<or> HasSuffix (dir @ ''/'' @ name) ''_test.go''
      then walkEntries dir sf fi s
      else (case sf (dir @ ''/'' @ name) s of Inl err \<Rightarrow> Inl err | Inr s' \<Rightarrow> walkEntries dir sf fi s'))"
  by simp

lemma walkEntries_inv:
  assumes step: "\<And>path s s'. sourceFunc path s = Inr s' \<Longrightarrow> I s \<Longrightarrow> I s'"
  shows "walkEntries dir sourceFunc fi s = Inr s' \<Longrightarrow> I s \<Longrightarrow> I s'"
proof (induction fi arbitrary: s)
  case Nil
  then show ?case by simp
next
  case (Cons e fi)
  obtain name isDir where e: "e = (name, isDir)" by (cases e)
  show ?case
  proof (cases "isDir \<or> \<not> HasSuffix (dir @ ''/'' @ name) ''.go'' \<or> HasSuffix (dir @ ''/'' @ name) ''_test.go''")
    case True
    have "walkEntries dir sourceFunc fi s = Inr s'"
      using Cons.prems(1) unfolding e walkEntries_Cons by (simp only: True if_True)
    then show ?thesis using Cons.IH Cons.prems(2) by blast
  next
    case False
    have "(case sourceFunc (dir @ ''/'' @ name) s of Inl err \<Rightarrow> Inl err
            | Inr s1 \<Rightarrow> walkEntries dir sourceFunc fi s1) = Inr s'"
      using Cons.prems(1) unfolding e walkEntries_Cons by (simp only: False if_False)
    then obtain s1 where s1: "sourceFunc (dir @ ''/'' @ name) s = Inr s1"
      and rest: "walkEntries dir sourceFunc fi s1 = Inr s'"
      by (cases "sourceFunc (dir @ ''/'' @ name) s") simp_all
    have "I s1" using step[OF s1 Cons.prems(2)] .
    then show ?thesis using Cons.IH rest by blast
  qed
qed

lemma walkSource_inv:
  assumes "\<And>path s s'. sourceFunc path s = Inr s' \<Longrightarrow> I s \<Longrightarrow> I s'"
    and "walkSource X dir sourceFunc s = Inr s'" and "I s"
  shows "I s'"
proof -
  from assms(2) obtain fi where "walkEntries dir sourceFunc fi s = Inr s'"
    by (auto simp: walkSource_def split: sum.splits)
  then show ?thesis using walkEntries_inv[of sourceFunc I dir fi s s'] assms(1,3) by blast
qed

lemma load_parsed:
  assumes "walkSource X dir (loadSource X) [] = Inr parsed"
  shows "distinct (map fst parsed) \<and> (\<forall>pf \<in> set parsed. ParseFile X (fst pf) = Inr (snd pf))"
  by (rule walkSource_inv[where I = "\<lambda>s. distinct (map fst s) \<and> (\<forall>pf \<in> set s. ParseFile X (fst pf) = Inr (snd pf))",
        OF _ assms])
     (use loadSource_inv in blast, simp)

text \<open>
  What the rewrite loop stores for a path it visits.
\<close>

lemma rewriteLoop_inv:
  "rewriteLoop X pt M todo files tc = Inr (files', tc') \<Longrightarrow>
   fst ` set files' = fst ` set files \<union> fst ` set todo \<and>
   (distinct (map fst files) \<longrightarrow> distinct (map fst files')) \<and>
   (\<exists>gs. tc' = tc @ gs \<and>
      list_all2 (\<lambda>pf g. \<exists>h. rewriteFile X pt M (snd pf) = Some h \<and> refresh X h = Inr g) todo gs) \<and>
   (\<forall>path g. map_of files' path = Some g \<longrightarrow>
      (if path \<in> fst ` set todo
       then \<exists>f h. (path, f) \<in> set todo \<and> rewriteFile X pt M f = Some h \<and> refresh X h = Inr g
       else map_of files path = Some g))"
proof (induction todo arbitrary: files tc)
  case Nil
  then show ?case by auto
next
  case (Cons pf todo)
  obtain path0 f0 where pf: "pf = (path0, f0)" by (cases pf)
  from Cons.prems pf obtain h0 g0 where h0: "rewriteFile X pt M f0 = Some h0"
    and g0: "refresh X h0 = Inr g0"
    and rest: "rewriteLoop X pt M todo (AList.update path0 g0 files) (tc @ [g0]) = Inr (files', tc')"
    by (auto split: option.splits sum.splits)
  note ih = Cons.IH[OF rest]
  have keys: "fst ` set files' = fst ` set files \<union> fst ` set (pf # todo)"
    using ih pf by (auto simp: dom_update)
  have dist: "distinct (map fst files) \<longrightarrow> distinct (map fst files')"
    using ih by (simp add: distinct_update)
  from ih obtain gs where gs: "tc' = (tc @ [g0]) @ gs"
    "list_all2 (\<lambda>pf g. \<exists>h. rewriteFile X pt M (snd pf) = Some h \<and> refresh X h = Inr g) todo gs"
    by blast
  then have tcs: "\<exists>gs'. tc' = tc @ gs' \<and>
      list_all2 (\<lambda>pf g. \<exists>h. rewriteFile X pt M (snd pf) = Some h \<and> refresh X h = Inr g) (pf # todo) gs'"
    using pf h0 g0 by (intro exI[of _ "g0 # gs"]) simp
  have look: "\<forall>path g. map_of files' path = Some g \<longrightarrow>
      (if path \<in> fst ` set (pf # todo)
       then \<exists>f h. (path, f) \<in> set (pf # todo) \<and> rewriteFile X pt M f = Some h \<and> refresh X h = Inr g
       else map_of files path = Some g)"
  proof (intro allI impI)
    fix path g
    assume m: "map_of files' path = Some g"
    show "if path \<in> fst ` set (pf # todo)
       then \<exists>f h. (path, f) \<in> set (pf # todo) \<and> rewriteFile X pt M f = Some h \<and> refresh X h = Inr g
       else map_of files path = Some g"
    proof (cases "path \<in> fst ` set todo")
      case True
      then obtain f h where "(path, f) \<in> set todo" "rewriteFile X pt M f = Some h" "refresh X h = Inr g"
        using ih m by (metis (no_types, lifting))
      then show ?thesis using True by auto
    next
      case False
      then have up: "map_of (AList.update path0 g0 files) path = Some g" using ih m by metis
      show ?thesis
      proof (cases "path = path0")
        case True
        then have "g = g0" using up by (simp add: update_conv')
        then show ?thesis using True pf h0 g0 by auto
      next
        case nq: False
        then have "map_of files path = Some g" using up by (simp add: update_conv')
        then show ?thesis using nq False pf by auto
      qed
    qed
  qed
  show ?case using keys dist tcs look by blast
qed

lemma rewritten_trees:
  assumes loop: "rewriteLoop X pt M todo files0 [] = Inr (files, rewritten)"
  shows "\<forall>g \<in> set rewritten. \<exists>f h. rewriteFile X pt M f = Some h \<and> refresh X h = Inr g"
proof
  fix g assume g: "g \<in> set rewritten"
  from rewriteLoop_inv[OF loop] obtain gs where gs: "rewritten = [] @ gs"
    and all: "list_all2 (\<lambda>pf g. \<exists>h. rewriteFile X pt M (snd pf) = Some h \<and> refresh X h = Inr g) todo gs"
    by blast
  from g gs obtain i where i: "i < length gs" "gs ! i = g" by (auto simp: in_set_conv_nth)
  from all i(1) have "\<exists>h. rewriteFile X pt M (snd (todo ! i)) = Some h \<and> refresh X h = Inr (gs ! i)"
    by (simp add: list_all2_conv_all_nth)
  then show "\<exists>f h. rewriteFile X pt M f = Some h \<and> refresh X h = Inr g" using i(2) by blast
qed

lemma stubSource_inv:
  assumes "stubSource X path tc = Inr tc'"
    and "\<exists>stubs. tc = base @ stubs \<and> (\<forall>s \<in> set stubs. \<exists>p g ds. ParseFile X p = Inr g \<and>
           findDecl g = Some ds \<and> ds \<noteq> [] \<and> s = \<lparr>PkgName = PkgName g, Decls = ds\<rparr>)"
  shows "\<exists>stubs. tc' = base @ stubs \<and> (\<forall>s \<in> set stubs. \<exists>p g ds. ParseFile X p = Inr g \<and>
           findDecl g = Some ds \<and> ds \<noteq> [] \<and> s = \<lparr>PkgName = PkgName g, Decls = ds\<rparr>)"
proof -
  from assms(2) obtain stubs where st: "tc = base @ stubs"
    and sh: "\<forall>s \<in> set stubs. \<exists>p g ds. ParseFile X p = Inr g \<and>
           findDecl g = Some ds \<and> ds \<noteq> [] \<and> s = \<lparr>PkgName = PkgName g, Decls = ds\<rparr>"
    by blast
  from assms(1) obtain g ds where g: "ParseFile X path = Inr g" and ds: "findDecl g = Some ds"
    and tc': "tc' = (if length ds > 0 then tc @ [\<lparr>PkgName = PkgName g, Decls = ds\<rparr>] else tc)"
    by (auto simp: stubSource_def split: sum.splits option.splits if_splits)
  show ?thesis
  proof (cases "ds = []")
    case True
    then show ?thesis using tc' st sh by auto
  next
    case False
    then have "tc' = base @ (stubs @ [\<lparr>PkgName = PkgName g, Decls = ds\<rparr>])" using tc' st by simp
    moreover have "\<forall>s \<in> set (stubs @ [\<lparr>PkgName = PkgName g, Decls = ds\<rparr>]). \<exists>p g ds. ParseFile X p = Inr g \<and>
           findDecl g = Some ds \<and> ds \<noteq> [] \<and> s = \<lparr>PkgName = PkgName g, Decls = ds\<rparr>"
      using sh g ds False by auto
    ultimately show ?thesis by blast
  qed
qed

lemma stubs_shape:
  assumes "walkSource X dir (stubSource X) base = Inr tc"
  shows "\<exists>stubs. tc = base @ stubs \<and> (\<forall>s \<in> set stubs. \<exists>p g ds. ParseFile X p = Inr g \<and>
           findDecl g = Some ds \<and> ds \<noteq> [] \<and> s = \<lparr>PkgName = PkgName g, Decls = ds\<rparr>)"
  by (rule walkSource_inv[where I = "\<lambda>tc. \<exists>stubs. tc = base @ stubs \<and> (\<forall>s \<in> set stubs. \<exists>p g ds. ParseFile X p = Inr g \<and>
           findDecl g = Some ds \<and> ds \<noteq> [] \<and> s = \<lparr>PkgName = PkgName g, Decls = ds\<rparr>)", OF _ assms])
     (use stubSource_inv in blast, simp)

lemma prepare_Inr:
  assumes "prepare X pkgPath newPkgPath M = Inr (pt, files, tc)"
  shows "parsePackageTarget X newPkgPath = Inr pt \<and>
    (\<exists>parsed rewritten.
       walkSource X (Getenv X ''GOPATH'' @ ''/src/'' @ pkgPath) (loadSource X) [] = Inr parsed \<and>
       rewriteLoop X pt M
         (rangeOver X 0 (map (\<lambda>pf. (fst pf, Resolve X parsed (snd pf))) parsed))
         (map (\<lambda>pf. (fst pf, Resolve X parsed (snd pf))) parsed) [] = Inr (files, rewritten) \<and>
       (if SameDir pt then walkSource X ''.'' (stubSource X) rewritten = Inr tc
        else tc = rewritten))"
  using assms
  by (auto simp: prepare_def split: sum.splits prod.splits if_splits)

lemma prepare_files:
  assumes "prepare X pkgPath newPkgPath M = Inr (pt, files, tc)"
  shows "distinct (map fst files) \<and>
    (\<forall>pg \<in> set files. \<exists>parsed f0 h.
       ParseFile X (fst pg) = Inr f0 \<and>
       rewriteFile X pt M (Resolve X parsed f0) = Some h \<and> refresh X h = Inr (snd pg))"
proof -
  from prepare_Inr[OF assms] obtain parsed rewritten where
    load: "walkSource X (Getenv X ''GOPATH'' @ ''/src/'' @ pkgPath) (loadSource X) [] = Inr parsed"
    and loop: "rewriteLoop X pt M
         (rangeOver X 0 (map (\<lambda>pf. (fst pf, Resolve X parsed (snd pf))) parsed))
         (map (\<lambda>pf. (fst pf, Resolve X parsed (snd pf))) parsed) [] = Inr (files, rewritten)"
    by blast
  let ?files1 = "map (\<lambda>pf. (fst pf, Resolve X parsed (snd pf))) parsed"
  let ?todo = "rangeOver X 0 ?files1"
  from load_parsed[OF load] have dp: "distinct (map fst parsed)"
    and pp: "\<forall>pf \<in> set parsed. ParseFile X (fst pf) = Inr (snd pf)" by simp_all
  have d1: "distinct (map fst ?files1)" using dp by (simp add: comp_def)
  note inv = rewriteLoop_inv[OF loop]
  have df: "distinct (map fst files)" using inv d1 by blast
  have keys: "fst ` set files = fst ` set ?todo" using inv by (auto simp: rangeOver_set)
  have "\<exists>parsed f0 h. ParseFile X (fst pg) = Inr f0 \<and>
       rewriteFile X pt M (Resolve X parsed f0) = Some h \<and> refresh X h = Inr (snd pg)"
    if pg: "pg \<in> set files" for pg
  proof -
    have m: "map_of files (fst pg) = Some (snd pg)" using df pg by simp
    have k: "fst pg \<in> fst ` set ?todo" using keys pg by blast
    from inv m k obtain f h where f: "(fst pg, f) \<in> set ?todo"
      and h: "rewriteFile X pt M f = Some h" "refresh X h = Inr (snd pg)"
      by (metis (no_types, lifting))
    from f have "(fst pg, f) \<in> set ?files1" by (simp add: rangeOver_set)
    then obtain f0 where "(fst pg, f0) \<in> set parsed" "f = Resolve X parsed f0" by auto
    then show ?thesis using pp h by force
  qed
  then show ?thesis using df by blast
qed

lemma rewriteFile_SameDir:
  "SameDir pt \<Longrightarrow> rewriteFile X pt M f = Some h \<Longrightarrow>
   \<exists>f1. removeTypeDecl M (rewritePkgName f (NewName pt)) = Some f1 \<and>
        h = rewriteTopLevelIdent (LintName X) (NewPath pt) M (rewriteIdent (AddImport X) M f1)"
  by (auto simp: rewriteFile_def split: option.splits)

lemma prepare_example_gen:
  "prepare exampleEnv ''stack'' ''.gen'' exampleMap =
     Inr (\<lparr>SameDir = True, NewName = ''main'', NewPath = ''gen''\<rparr>,
          [(''/go/src/stack/stack.go'', reparsed ''main'' ''gen_Process'')],
          [reparsed ''main'' ''gen_Process'', siblingStub])"
  by code_simp

lemma prepare_failingCheck:
  "prepare failingCheck ''stack'' ''.gen'' exampleMap =
     Inr (\<lparr>SameDir = True, NewName = ''main'', NewPath = ''gen''\<rparr>,
          [(''/go/src/stack/stack.go'', reparsed ''main'' ''gen_Process'')],
          [reparsed ''main'' ''gen_Process'', siblingStub])"
  by code_simp

lemma prepare_diskFull:
  "prepare diskFull ''stack'' ''out/stack'' exampleMap =
     Inr (\<lparr>SameDir = False, NewName = ''stack'', NewPath = ''out/stack''\<rparr>,
          [(''/go/src/stack/stack.go'', reparsed ''stack'' ''Process'')],
          [reparsed ''stack'' ''Process''])"
  by code_simp

lemma prepare_noSiblings:
  "prepare noSiblings ''stack'' ''.gen'' exampleMap =
     Inr (\<lparr>SameDir = True, NewName = ''main'', NewPath = ''gen''\<rparr>,
          [(''/go/src/stack/stack.go'', reparsed ''main'' ''gen_Process'')],
          [reparsed ''main'' ''gen_Process''])"
  by code_simp

lemma run_diskFull:
  "RewritePackage diskFull ''stack'' ''out/stack'' exampleMap =
     (Some (Error ''disk full''),
      [(RemoveAll ''out/stack'', None), (MkdirAll ''out/stack'', None),
       (Create ''out/stack/stack.go'', None),
       (FormatNode ''out/stack/stack.go'' (reparsed ''stack'' ''Process''), Some (Error ''disk full'')),
       (Close ''out/stack/stack.go'', None), (RemoveAll ''out/stack'', None)])"
  by code_simp

lemma run_example_gen:
  "RewritePackage exampleEnv ''stack'' ''.gen'' exampleMap =
     (None,
      [(Create ''gen_stack.go'', None),
       (FormatNode ''gen_stack.go'' (reparsed ''main'' ''gen_Process''), None),
       (Close ''gen_stack.go'', None)])"
  by code_simp

lemma run_example_dot:
  "RewritePackage exampleEnv ''stack'' ''.'' exampleMap =
     (None,
      [(Create ''_stack.go'', None),
       (FormatNode ''_stack.go'' (reparsed ''main'' ''_Process''), None),
       (Close ''_stack.go'', None)])"
  by code_simp

text \<open>
  The checker rejects the rewritten template: both trees under check, the rewritten file
  and the stub of \<^verbatim>\<open>main.go\<close>, go to \<^verbatim>\<open>os.Stderr\<close> and nothing else happens.
\<close>

theorem RewritePackage_check_failure_witness:
  "prepare failingCheck ''stack'' ''.gen'' exampleMap =
     Inr (\<lparr>SameDir = True, NewName = ''main'', NewPath = ''gen''\<rparr>,
          [(''/go/src/stack/stack.go'', reparsed ''main'' ''gen_Process'')],
          [reparsed ''main'' ''gen_Process'', siblingStub]) \<and>
   Check failingCheck [reparsed ''main'' ''gen_Process'', siblingStub] = Some (Error ''type error'') \<and>
   fst (RewritePackage failingCheck ''stack'' ''.gen'' exampleMap) = Some (Error ''type error'') \<and>
   map fst (snd (RewritePackage failingCheck ''stack'' ''.gen'' exampleMap)) =
     [Stderr (Some (reparsed ''main'' ''gen_Process'')), Stderr (Some siblingStub)]"
proof -
  have c: "Check failingCheck [reparsed ''main'' ''gen_Process'', siblingStub] = Some (Error ''type error'')"
    by (simp add: failingCheck_def)
  show ?thesis
    using RewritePackage_check_failure[OF prepare_failingCheck c] prepare_failingCheck c by simp
qed

subsection \<open>Emission into a new package\<close>

lemma emitNewPackage_cases:
  fixes X pt files
  defines "p \<equiv> NewPath pt"
  defines "fs \<equiv> rangeOver X 1 files"
  defines "dst \<equiv> newPackageDest X pt"
  assumes run: "emitNewPackage X pt files [] = (res, tr)"
  shows "(\<exists>err. res = Some err \<and> tr = [(RemoveAll p, Some err)]) \<or>
         (\<exists>err. res = Some err \<and> tr = [(RemoveAll p, None), (MkdirAll p, Some err)]) \<or>
         (\<exists>ws cl. res = None \<and> tr = (RemoveAll p, None) # (MkdirAll p, None) # ws @ cl \<and>
            map fst ws = writes dst fs \<and> list_all (\<lambda>ce. snd ce = None) ws \<and>
            map fst cl = map Close (rev (map (\<lambda>pf. dst (fst pf)) fs))) \<or>
         (\<exists>err ws c cl e. res = Some err \<and>
            tr = (RemoveAll p, None) # (MkdirAll p, None) # ws @ [(c, Some err)] @ cl @ [(RemoveAll p, e)] \<and>
            (\<exists>pf \<in> set fs. c = Create (dst (fst pf)) \<or> c = FormatNode (dst (fst pf)) (snd pf)) \<and>
            (\<forall>c' \<in> fst ` set ws. \<exists>pf \<in> set fs. c' = Create (dst (fst pf)) \<or> c' = FormatNode (dst (fst pf)) (snd pf)) \<and>
            (\<forall>c' \<in> fst ` set cl. \<exists>q. c' = Close q))"
proof (cases "OsError X [] (RemoveAll p)")
  case (Some err)
  then show ?thesis using run by (auto simp: emitNewPackage_def perform_def p_def)
next
  case None
  note r = None
  let ?tr1 = "[(RemoveAll p, None)]"
  show ?thesis
  proof (cases "OsError X ?tr1 (MkdirAll p)")
    case (Some err)
    then show ?thesis using run r by (auto simp: emitNewPackage_def perform_def p_def)
  next
    case None
    note m = None
    let ?tr2 = "[(RemoveAll p, None), (MkdirAll p, None)]"
    obtain r3 opened tr3 where loop: "emitLoop X dst fs [] ?tr2 = (r3, opened, tr3)"
      by (metis prod_cases3)
    have res: "res = r3"
      and tr: "tr = (if r3 \<noteq> None then snd (perform X (RemoveAll p) (runDeferred X opened tr3))
                     else runDeferred X opened tr3)"
      using run r m loop by (auto simp: emitNewPackage_def perform_def p_def fs_def dst_def)
    obtain cl where cl: "runDeferred X opened tr3 = tr3 @ cl" "map fst cl = map Close opened"
      using runDeferred_extends by blast
    show ?thesis
    proof (cases r3)
      case None
      from emitLoop_ok[OF loop[unfolded None]] obtain ws where
        ws: "tr3 = ?tr2 @ ws" "map fst ws = writes dst fs" "list_all (\<lambda>ce. snd ce = None) ws"
        and op: "opened = rev (map (\<lambda>pf. dst (fst pf)) fs) @ []"
        by blast
      have "tr = (RemoveAll p, None) # (MkdirAll p, None) # ws @ cl"
        using tr None cl(1) ws(1) by simp
      then show ?thesis using res None ws cl(2) op by auto
    next
      case (Some err)
      from emitLoop_err[OF loop[unfolded Some]] obtain ws c where
        ws: "tr3 = ?tr2 @ ws @ [(c, Some err)]"
        and c: "\<exists>pf \<in> set fs. c = Create (dst (fst pf)) \<or> c = FormatNode (dst (fst pf)) (snd pf)"
        by blast
      from emitLoop_calls[OF loop] obtain ext where
        ext: "tr3 = ?tr2 @ ext"
        and ec: "\<forall>c \<in> fst ` set ext. \<exists>pf \<in> set fs. c = Create (dst (fst pf)) \<or> c = FormatNode (dst (fst pf)) (snd pf)"
        by blast
      have "ext = ws @ [(c, Some err)]" using ws ext by simp
      then have wc: "\<forall>c' \<in> fst ` set ws. \<exists>pf \<in> set fs. c' = Create (dst (fst pf)) \<or> c' = FormatNode (dst (fst pf)) (snd pf)"
        using ec by auto
      have clc: "\<forall>c' \<in> fst ` set cl. \<exists>q. c' = Close q"
      proof
        fix c' assume "c' \<in> fst ` set cl"
        then have "c' \<in> set (map fst cl)" by simp
        then show "\<exists>q. c' = Close q" unfolding cl(2) by auto
      qed
      have "tr = (RemoveAll p, None) # (MkdirAll p, None) # ws @ [(c, Some err)] @ cl @
                   [(RemoveAll p, OsError X (tr3 @ cl) (RemoveAll p))]"
        using tr Some cl(1) ws by (simp add: perform_def)
      then show ?thesis using res Some c wc clc by blast
    qed
  qed
qed

text \<open>
  C6. In new-package mode, after a successful check, the run first removes the
  destination path. If that or the making of the directory fails, the error is returned.
  Otherwise every file of \<^verbatim>\<open>files\<close> (each the refreshed rewrite of a parsed template
  file, each path once) is created under the destination path with the base name of its
  path and written; when all of that succeeds the files are closed and the run returns
  no error. When a creation or a write fails, the files opened so far are closed, the
  destination path is removed again (the error of that removal is dropped) and the error
  of the failed call is returned.
\<close>

theorem RewritePackage_new_package_emission:
  assumes "prepare X pkgPath newPkgPath typeMap = Inr (pt, files, tc)"
    and "\<not> SameDir pt" and "Check X tc = None"
  shows "\<exists>res tr. RewritePackage X pkgPath newPkgPath typeMap = (res, tr) \<and>
    ((\<exists>err. res = Some err \<and> tr = [(RemoveAll (NewPath pt), Some err)]) \<or>
     (\<exists>err. res = Some err \<and>
        tr = [(RemoveAll (NewPath pt), None), (MkdirAll (NewPath pt), Some err)]) \<or>
     (\<exists>ws cl. res = None \<and>
        tr = (RemoveAll (NewPath pt), None) # (MkdirAll (NewPath pt), None) # ws @ cl \<and>
        map fst ws =
          concat (map (\<lambda>pf. [Create (NewPath pt @ ''/'' @ Base X (fst pf)),
                              FormatNode (NewPath pt @ ''/'' @ Base X (fst pf)) (snd pf)])
                    (rangeOver X 1 files)) \<and>
        list_all (\<lambda>ce. snd ce = None) ws \<and>
        map fst cl =
          map Close (rev (map (\<lambda>pf. NewPath pt @ ''/'' @ Base X (fst pf)) (rangeOver X 1 files)))) \<or>
     (\<exists>err ws c cl e. res = Some err \<and>
        tr = (RemoveAll (NewPath pt), None) # (MkdirAll (NewPath pt), None) # ws @
             [(c, Some err)] @ cl @ [(RemoveAll (NewPath pt), e)] \<and>
        (\<exists>pf \<in> set files. c = Create (NewPath pt @ ''/'' @ Base X (fst pf)) \<or>
                            c = FormatNode (NewPath pt @ ''/'' @ Base X (fst pf)) (snd pf)) \<and>
        (\<forall>c' \<in> fst ` set ws. \<exists>pf \<in> set files.
            c' = Create (NewPath pt @ ''/'' @ Base X (fst pf)) \<or>
            c' = FormatNode (NewPath pt @ ''/'' @ Base X (fst pf)) (snd pf)) \<and>
        (\<forall>c' \<in> fst ` set cl. \<exists>q. c' = Close q))) \<and>
    set (rangeOver X 1 files) = set files \<and>
    length (rangeOver X 1 files) = length files \<and>
    distinct (map fst files) \<and>
    (\<forall>pg \<in> set files. \<exists>parsed f0 h.
       ParseFile X (fst pg) = Inr f0 \<and>
       rewriteFile X pt typeMap (Resolve X parsed f0) = Some h \<and> refresh X h = Inr (snd pg))"
proof -
  obtain res tr where run: "emitNewPackage X pt files [] = (res, tr)" by (cases "emitNewPackage X pt files []")
  have rp: "RewritePackage X pkgPath newPkgPath typeMap = (res, tr)"
    using assms run by (simp add: RewritePackage_def)
  note cases = emitNewPackage_cases[OF run, unfolded writes_def newPackageDest_def rangeOver_set]
  show ?thesis
    using rp cases prepare_files[OF assms(1)] rangeOver_set[of X 1 files] rangeOver_length[of X 1 files]
    by (simp add: rangeOver_set)
qed

text \<open>
  The disk is full when the one file is written: the directory made before is removed
  and the error is returned.
\<close>

theorem RewritePackage_new_package_emission_witness:
  "prepare diskFull ''stack'' ''out/stack'' exampleMap =
     Inr (\<lparr>SameDir = False, NewName = ''stack'', NewPath = ''out/stack''\<rparr>,
          [(''/go/src/stack/stack.go'', reparsed ''stack'' ''Process'')],
          [reparsed ''stack'' ''Process'']) \<and>
   Check diskFull [reparsed ''stack'' ''Process''] = None \<and>
   RewritePackage diskFull ''stack'' ''out/stack'' exampleMap =
     (Some (Error ''disk full''),
      [(RemoveAll ''out/stack'', None), (MkdirAll ''out/stack'', None),
       (Create ''out/stack/stack.go'', None),
       (FormatNode ''out/stack/stack.go'' (reparsed ''stack'' ''Process''), Some (Error ''disk full'')),
       (Close ''out/stack/stack.go'', None), (RemoveAll ''out/stack'', None)]) \<and>
   set (rangeOver diskFull 1 [(''/go/src/stack/stack.go'', reparsed ''stack'' ''Process'')]) =
     {(''/go/src/stack/stack.go'', reparsed ''stack'' ''Process'')}"
proof -
  have c: "Check diskFull [reparsed ''stack'' ''Process''] = None"
    by (simp add: diskFull_def exampleEnv_def)
  have n: "\<not> SameDir \<lparr>SameDir = False, NewName = ''stack'', NewPath = ''out/stack''\<rparr>" by simp
  show ?thesis
    using RewritePackage_new_package_emission[OF prepare_diskFull n c] prepare_diskFull c run_diskFull
    by simp
qed

subsection \<open>Emission beside the sources\<close>

lemma emitSameDir_calls:
  assumes "emitSameDir X pt files [] = (res, tr)"
  shows "\<forall>c \<in> fst ` set tr.
           (\<exists>pf \<in> set files. c = Create (sameDirDest X pt (fst pf)) \<or>
                               c = FormatNode (sameDirDest X pt (fst pf)) (snd pf)) \<or>
           (\<exists>q. c = Close q)"
proof -
  obtain r opened tr1 where loop: "emitLoop X (sameDirDest X pt) (rangeOver X 1 files) [] [] = (r, opened, tr1)"
    by (metis prod_cases3)
  then have tr: "tr = runDeferred X opened tr1" using assms by (simp add: emitSameDir_def)
  from emitLoop_calls[OF loop] have c1: "\<forall>c \<in> fst ` set tr1. \<exists>pf \<in> set files.
      c = Create (sameDirDest X pt (fst pf)) \<or> c = FormatNode (sameDirDest X pt (fst pf)) (snd pf)"
    by (simp add: rangeOver_set)
  obtain cl where cl: "runDeferred X opened tr1 = tr1 @ cl" "map fst cl = map Close opened"
    using runDeferred_extends by blast
  have c2: "\<forall>c \<in> fst ` set cl. \<exists>q. c = Close q"
  proof
    fix c assume "c \<in> fst ` set cl"
    then have "c \<in> set (map fst cl)" by simp
    then show "\<exists>q. c = Close q" unfolding cl(2) by auto
  qed
  show ?thesis unfolding tr cl(1) using c1 c2 by auto
qed

lemma emitSameDir_ok:
  assumes "emitSameDir X pt files [] = (None, tr)"
  shows "\<exists>ws cl. tr = ws @ cl \<and>
           map fst ws = writes (sameDirDest X pt) (rangeOver X 1 files) \<and>
           list_all (\<lambda>ce. snd ce = None) ws \<and>
           map fst cl = map Close (rev (map (\<lambda>pf. sameDirDest X pt (fst pf)) (rangeOver X 1 files)))"
proof -
  obtain r opened tr1 where loop: "emitLoop X (sameDirDest X pt) (rangeOver X 1 files) [] [] = (r, opened, tr1)"
    by (metis prod_cases3)
  then have r: "r = None" and tr: "tr = runDeferred X opened tr1"
    using assms by (simp_all add: emitSameDir_def)
  from emitLoop_ok[OF loop[unfolded r]] have ws: "map fst tr1 = writes (sameDirDest X pt) (rangeOver X 1 files)"
    "list_all (\<lambda>ce. snd ce = None) tr1"
    and op: "opened = rev (map (\<lambda>pf. sameDirDest X pt (fst pf)) (rangeOver X 1 files))"
    by auto
  obtain cl where cl: "runDeferred X opened tr1 = tr1 @ cl" "map fst cl = map Close opened"
    using runDeferred_extends by blast
  show ?thesis using tr cl ws op by blast
qed

lemma dump_only_stderr:
  assumes "(c, e) \<in> set (dump X tc [])"
  shows "\<exists>f. c = Stderr (Some f)"
proof -
  from assms have "c \<in> set (map fst (dump X tc []))" by force
  then show ?thesis unfolding dump_calls by auto
qed

lemma emitSameDir_entry:
  assumes "emitSameDir X pt files [] = (res, tr)" and "(c, e) \<in> set tr"
  shows "(\<exists>pf \<in> set files. c = Create (sameDirDest X pt (fst pf)) \<or>
                            c = FormatNode (sameDirDest X pt (fst pf)) (snd pf)) \<or>
         (\<exists>q. c = Close q)"
proof -
  from assms(2) have "c \<in> fst ` set tr" by force
  then show ?thesis using emitSameDir_calls[OF assms(1)] by blast
qed

lemma RewritePackage_SameDir_entry:
  assumes p: "prepare X pkgPath newPkgPath M = Inr (pt, files, tc)" and sd: "SameDir pt"
    and ce: "(c, e) \<in> set (snd (RewritePackage X pkgPath newPkgPath M))"
  shows "(\<exists>f. c = Stderr (Some f)) \<or>
         (\<exists>pf \<in> set files. c = Create (sameDirDest X pt (fst pf)) \<or>
                            c = FormatNode (sameDirDest X pt (fst pf)) (snd pf)) \<or>
         (\<exists>q. c = Close q)"
proof (cases "Check X tc")
  case (Some err)
  then have "snd (RewritePackage X pkgPath newPkgPath M) = dump X tc []"
    using p by (simp add: RewritePackage_def)
  then show ?thesis using ce dump_only_stderr by metis
next
  case None
  then have "RewritePackage X pkgPath newPkgPath M = emitSameDir X pt files []"
    using p sd by (simp add: RewritePackage_def)
  then have "emitSameDir X pt files [] =
      (fst (RewritePackage X pkgPath newPkgPath M), snd (RewritePackage X pkgPath newPkgPath M))"
    by simp
  from emitSameDir_entry[OF this ce] show ?thesis by blast
qed

lemma RewritePackage_SameDir_creates_all:
  assumes p: "prepare X pkgPath newPkgPath M = Inr (pt, files, tc)" and sd: "SameDir pt"
    and ok: "fst (RewritePackage X pkgPath newPkgPath M) = None"
    and path: "path \<in> fst ` set files"
  shows "(Create (sameDirDest X pt path), None) \<in> set (snd (RewritePackage X pkgPath newPkgPath M))"
proof -
  have c: "Check X tc = None"
    using ok p by (cases "Check X tc") (simp_all add: RewritePackage_def)
  then have "RewritePackage X pkgPath newPkgPath M = emitSameDir X pt files []"
    using p sd by (simp add: RewritePackage_def)
  then have e: "emitSameDir X pt files [] = (None, snd (RewritePackage X pkgPath newPkgPath M))"
    using ok by (metis prod.collapse)
  from emitSameDir_ok[OF e] obtain ws cl where tr: "snd (RewritePackage X pkgPath newPkgPath M) = ws @ cl"
    and ws: "map fst ws = writes (sameDirDest X pt) (rangeOver X 1 files)"
    and nn: "list_all (\<lambda>ce. snd ce = None) ws" by blast
  from path obtain g where g: "(path, g) \<in> set (rangeOver X 1 files)" by (auto simp: rangeOver_set)
  have "Create (sameDirDest X pt path) \<in> set (writes (sameDirDest X pt) (rangeOver X 1 files))"
    using g by (force simp: writes_def)
  then have "Create (sameDirDest X pt path) \<in> set (map fst ws)" using ws by simp
  then obtain e' where in_ws: "(Create (sameDirDest X pt path), e') \<in> set ws" by auto
  then have "e' = None" using nn by (auto simp: list_all_iff)
  then show ?thesis using in_ws tr by simp
qed

lemma TrimPrefix_dot: "HasPrefix path ''.'' \<Longrightarrow> TrimPrefix path ''.'' = tl path"
  by (simp add: TrimPrefix_def drop_Suc)

lemma parsePackageTarget_dot:
  assumes "HasPrefix path ''.''"
  shows "parsePackageTarget X path =
           (if Getenv X ''GOPACKAGE'' = [] then Inl (Error ''GOPACKAGE cannot be empty'')
            else Inr \<lparr>SameDir = True, NewName = Getenv X ''GOPACKAGE'', NewPath = tl path\<rparr>)"
  using assms by (simp add: parsePackageTarget_def TrimPrefix_dot)

text \<open>
  C8. For a destination that begins with \<^verbatim>\<open>.\<close>, \<^verbatim>\<open>parsePackageTarget\<close> returns the
  configuration error when \<^verbatim>\<open>GOPACKAGE\<close> is empty, and otherwise selects same-directory
  mode with \<^verbatim>\<open>NewPath\<close> the destination without its first character. Whenever the run
  then prepares its trees, every emitted tree is the refresh of a file whose top-level
  identifiers were prefixed with that string, every file created is named by that
  string, an underscore and the base name of a template file, and after a run without
  error each template file has been created so.
\<close>

theorem same_directory_prefix:
  assumes "HasPrefix newPkgPath ''.''"
  shows "parsePackageTarget X newPkgPath =
           (if Getenv X ''GOPACKAGE'' = [] then Inl (Error ''GOPACKAGE cannot be empty'')
            else Inr \<lparr>SameDir = True, NewName = Getenv X ''GOPACKAGE'',
                      NewPath = tl newPkgPath\<rparr>) \<and>
    (\<forall>pt files tc. prepare X pkgPath newPkgPath typeMap = Inr (pt, files, tc) \<longrightarrow>
       SameDir pt \<and> NewPath pt = tl newPkgPath \<and>
       (\<forall>pg \<in> set files. \<exists>parsed f0 f1.
          ParseFile X (fst pg) = Inr f0 \<and>
          removeTypeDecl typeMap (rewritePkgName (Resolve X parsed f0) (NewName pt)) = Some f1 \<and>
          refresh X (rewriteTopLevelIdent (LintName X) (tl newPkgPath) typeMap
                       (rewriteIdent (AddImport X) typeMap f1)) = Inr (snd pg)) \<and>
       (\<forall>p e. (Create p, e) \<in> set (snd (RewritePackage X pkgPath newPkgPath typeMap)) \<longrightarrow>
          (\<exists>path \<in> fst ` set files. p = tl newPkgPath @ ''_'' @ Base X path)) \<and>
       (fst (RewritePackage X pkgPath newPkgPath typeMap) = None \<longrightarrow>
          (\<forall>path \<in> fst ` set files.
             (Create (tl newPkgPath @ ''_'' @ Base X path), None) \<in>
               set (snd (RewritePackage X pkgPath newPkgPath typeMap)))))"
proof (intro conjI allI impI)
  show "parsePackageTarget X newPkgPath =
           (if Getenv X ''GOPACKAGE'' = [] then Inl (Error ''GOPACKAGE cannot be empty'')
            else Inr \<lparr>SameDir = True, NewName = Getenv X ''GOPACKAGE'',
                      NewPath = tl newPkgPath\<rparr>)"
    using assms by (rule parsePackageTarget_dot)
next
  fix pt files tc
  assume p: "prepare X pkgPath newPkgPath typeMap = Inr (pt, files, tc)"
  then have "parsePackageTarget X newPkgPath = Inr pt" using prepare_Inr by blast
  then have pt: "pt = \<lparr>SameDir = True, NewName = Getenv X ''GOPACKAGE'', NewPath = tl newPkgPath\<rparr>"
    using parsePackageTarget_dot[OF assms, of X] by (simp split: if_splits)
  show sd: "SameDir pt" and np: "NewPath pt = tl newPkgPath" using pt by simp_all
  have dest: "sameDirDest X pt path = tl newPkgPath @ ''_'' @ Base X path" for path
    using np by (simp add: sameDirDest_def)
  show "\<forall>pg \<in> set files. \<exists>parsed f0 f1.
          ParseFile X (fst pg) = Inr f0 \<and>
          removeTypeDecl typeMap (rewritePkgName (Resolve X parsed f0) (NewName pt)) = Some f1 \<and>
          refresh X (rewriteTopLevelIdent (LintName X) (tl newPkgPath) typeMap
                       (rewriteIdent (AddImport X) typeMap f1)) = Inr (snd pg)"
  proof
    fix pg assume "pg \<in> set files"
    then obtain parsed f0 h where f0: "ParseFile X (fst pg) = Inr f0"
      and h: "rewriteFile X pt typeMap (Resolve X parsed f0) = Some h"
      and r: "refresh X h = Inr (snd pg)"
      using prepare_files[OF p] by blast
    from rewriteFile_SameDir[OF sd h] obtain f1 where
      f1: "removeTypeDecl typeMap (rewritePkgName (Resolve X parsed f0) (NewName pt)) = Some f1"
      and hh: "h = rewriteTopLevelIdent (LintName X) (NewPath pt) typeMap (rewriteIdent (AddImport X) typeMap f1)"
      by blast
    have "refresh X (rewriteTopLevelIdent (LintName X) (tl newPkgPath) typeMap
                       (rewriteIdent (AddImport X) typeMap f1)) = Inr (snd pg)"
      using r hh np by simp
    then show "\<exists>parsed f0 f1.
          ParseFile X (fst pg) = Inr f0 \<and>
          removeTypeDecl typeMap (rewritePkgName (Resolve X parsed f0) (NewName pt)) = Some f1 \<and>
          refresh X (rewriteTopLevelIdent (LintName X) (tl newPkgPath) typeMap
                       (rewriteIdent (AddImport X) typeMap f1)) = Inr (snd pg)"
      using f0 f1 by blast
  qed
  show "\<exists>path \<in> fst ` set files. p' = tl newPkgPath @ ''_'' @ Base X path"
    if "(Create p', e) \<in> set (snd (RewritePackage X pkgPath newPkgPath typeMap))" for p' e
  proof -
    from RewritePackage_SameDir_entry[OF p sd that]
    obtain pf where "pf \<in> set files" "p' = sameDirDest X pt (fst pf)" by auto
    then show ?thesis using dest by (intro bexI[of _ "fst pf"]) simp_all
  qed
  show "\<forall>path \<in> fst ` set files.
             (Create (tl newPkgPath @ ''_'' @ Base X path), None) \<in>
               set (snd (RewritePackage X pkgPath newPkgPath typeMap))"
    if ok: "fst (RewritePackage X pkgPath newPkgPath typeMap) = None"
  proof
    fix path assume "path \<in> fst ` set files"
    from RewritePackage_SameDir_creates_all[OF p sd ok this]
    show "(Create (tl newPkgPath @ ''_'' @ Base X path), None) \<in>
               set (snd (RewritePackage X pkgPath newPkgPath typeMap))"
      by (simp only: dest)
  qed
qed

text \<open>
  The destination \<^verbatim>\<open>.\<close> gives the empty prefix and the file \<^verbatim>\<open>_stack.go\<close> with the
  function \<^verbatim>\<open>_Process\<close>; the destination \<^verbatim>\<open>./x\<close> gives the prefix \<^verbatim>\<open>/x\<close>.
\<close>

theorem same_directory_prefix_witness:
  "HasPrefix ''.'' ''.'' \<and> HasPrefix ''./x'' ''.'' \<and>
   parsePackageTarget exampleEnv ''.'' = Inr \<lparr>SameDir = True, NewName = ''main'', NewPath = []\<rparr> \<and>
   parsePackageTarget exampleEnv ''./x'' = Inr \<lparr>SameDir = True, NewName = ''main'', NewPath = ''/x''\<rparr> \<and>
   RewritePackage exampleEnv ''stack'' ''.'' exampleMap =
     (None,
      [(Create ''_stack.go'', None),
       (FormatNode ''_stack.go'' (reparsed ''main'' ''_Process''), None),
       (Close ''_stack.go'', None)])"
proof -
  have h1: "HasPrefix ''.'' ''.''" and h2: "HasPrefix ''./x'' ''.''" by (simp_all add: HasPrefix_def)
  have g: "Getenv exampleEnv ''GOPACKAGE'' = ''main''" by (simp add: exampleEnv_def)
  show ?thesis
    using same_directory_prefix[OF h1, of exampleEnv "''stack''" exampleMap]
      same_directory_prefix[OF h2, of exampleEnv "''stack''" exampleMap] h1 h2 g run_example_dot
    by simp
qed

subsection \<open>Stubs\<close>

lemma stubSpecs_eq: "stubSpecs specs = Some specs' \<Longrightarrow> specs' = map neutralScalar specs"
  by (induction specs arbitrary: specs' rule: stubSpecs.induct) (auto simp: neutralScalar_def)

lemma findDecls_eq: "findDecls ds = Some ret \<Longrightarrow> ret = map stubDecl (filter isTypeDecl ds)"
proof (induction ds arbitrary: ret rule: findDecls.induct)
  case 1
  then show ?case by simp
next
  case (2 tok specs ds)
  show ?case
  proof (cases "tok = Tok_TYPE")
    case True
    with "2.prems" obtain specs' ret' where s: "stubSpecs specs = Some specs'"
      and r: "findDecls ds = Some ret'" and ret: "ret = GenDecl tok specs' # ret'"
      by (auto split: option.splits)
    from "2.IH"(2)[OF _ s r] True have "ret' = map stubDecl (filter isTypeDecl ds)" by simp
    then show ?thesis using ret True stubSpecs_eq[OF s] by simp
  next
    case False
    then show ?thesis using 2 by simp
  qed
next
  case (3 ds)
  then show ?case by simp
next
  case (4 a recv x ty body ds)
  then show ?case by simp
qed

lemma stubs_shape':
  assumes st: "walkSource X ''.'' (stubSource X) rewritten = Inr tc"
  shows "\<exists>stubs. tc = rewritten @ stubs \<and>
     (\<forall>s \<in> set stubs. \<exists>path g. ParseFile X path = Inr g \<and>
        findDecl g = Some (map stubDecl (filter isTypeDecl (Decls g))) \<and>
        s = \<lparr>PkgName = PkgName g, Decls = map stubDecl (filter isTypeDecl (Decls g))\<rparr>)"
proof -
  from stubs_shape[OF st] obtain stubs where tc: "tc = rewritten @ stubs"
    and sh: "\<forall>s \<in> set stubs. \<exists>p g ds. ParseFile X p = Inr g \<and>
           findDecl g = Some ds \<and> ds \<noteq> [] \<and> s = \<lparr>PkgName = PkgName g, Decls = ds\<rparr>"
    by blast
  have "\<forall>s \<in> set stubs. \<exists>path g. ParseFile X path = Inr g \<and>
               findDecl g = Some (map stubDecl (filter isTypeDecl (Decls g))) \<and>
               s = \<lparr>PkgName = PkgName g, Decls = map stubDecl (filter isTypeDecl (Decls g))\<rparr>"
  proof
    fix s assume "s \<in> set stubs"
    then obtain p g ds where g: "ParseFile X p = Inr g" and ds: "findDecl g = Some ds"
      and s: "s = \<lparr>PkgName = PkgName g, Decls = ds\<rparr>" using sh by blast
    have "ds = map stubDecl (filter isTypeDecl (Decls g))"
      using ds by (simp add: findDecl_def findDecls_eq)
    then show "\<exists>path g. ParseFile X path = Inr g \<and>
               findDecl g = Some (map stubDecl (filter isTypeDecl (Decls g))) \<and>
               s = \<lparr>PkgName = PkgName g, Decls = map stubDecl (filter isTypeDecl (Decls g))\<rparr>"
      using g ds s by blast
  qed
  then show ?thesis using tc by blast
qed

text \<open>
  Two environments that agree on the template directory give the same rewritten files.
\<close>

lemma perform_env [simp]: "perform (X\<lparr>ReadDir := rd, ParseFile := pf\<rparr>) = perform X"
  by (rule ext)+ (simp add: perform_def)

lemma refresh_env [simp]: "refresh (X\<lparr>ReadDir := rd, ParseFile := pf\<rparr>) = refresh X"
  by (rule ext) (simp add: refresh_def split: sum.splits prod.splits)

lemma rewriteFile_env [simp]: "rewriteFile (X\<lparr>ReadDir := rd, ParseFile := pf\<rparr>) = rewriteFile X"
  by (rule ext)+ (simp add: rewriteFile_def split: option.splits)

lemma rangeOver_env [simp]: "rangeOver (X\<lparr>ReadDir := rd, ParseFile := pf\<rparr>) = rangeOver X"
  by (rule ext)+ (simp add: rangeOver_def)

lemma rewriteLoop_env [simp]:
  "rewriteLoop (X\<lparr>ReadDir := rd, ParseFile := pf\<rparr>) pt M todo files tc = rewriteLoop X pt M todo files tc"
  by (induction todo arbitrary: files tc) (auto split: option.splits sum.splits)

lemma emitLoop_env [simp]:
  "emitLoop (X\<lparr>ReadDir := rd, ParseFile := pf\<rparr>) dst fs opened tr = emitLoop X dst fs opened tr"
  by (induction fs arbitrary: opened tr) (auto split: option.splits prod.splits)

lemma runDeferred_env [simp]:
  "runDeferred (X\<lparr>ReadDir := rd, ParseFile := pf\<rparr>) opened tr = runDeferred X opened tr"
  by (induction opened arbitrary: tr) simp_all

lemma sameDirDest_env [simp]:
  "sameDirDest (X\<lparr>ReadDir := rd, ParseFile := pf\<rparr>) = sameDirDest X"
  by (rule ext)+ (simp add: sameDirDest_def)

lemma emitSameDir_env [simp]:
  "emitSameDir (X\<lparr>ReadDir := rd, ParseFile := pf\<rparr>) = emitSameDir X"
  by (rule ext)+ (simp add: emitSameDir_def)

lemma parsePackageTarget_env [simp]:
  "parsePackageTarget (X\<lparr>ReadDir := rd, ParseFile := pf\<rparr>) = parsePackageTarget X"
  by (rule ext) (simp add: parsePackageTarget_def)

lemma walkEntries_agree:
  assumes "\<And>name s. sf (dir @ ''/'' @ name) s = sf' (dir @ ''/'' @ name) s"
  shows "walkEntries dir sf fi s = walkEntries dir sf' fi s"
proof (induction fi arbitrary: s)
  case Nil
  then show ?case by simp
next
  case (Cons e fi)
  obtain name isDir where e: "e = (name, isDir)" by (cases e)
  show ?case unfolding e walkEntries_Cons using assms Cons.IH by (simp split: sum.splits)
qed

lemma load_agree:
  assumes rd: "rd dir = ReadDir X dir"
    and pf: "\<And>name. pf (dir @ ''/'' @ name) = ParseFile X (dir @ ''/'' @ name)"
  shows "walkSource (X\<lparr>ReadDir := rd, ParseFile := pf\<rparr>) dir
           (loadSource (X\<lparr>ReadDir := rd, ParseFile := pf\<rparr>)) s =
         walkSource X dir (loadSource X) s"
proof -
  have "walkEntries dir (loadSource (X\<lparr>ReadDir := rd, ParseFile := pf\<rparr>)) fi s =
        walkEntries dir (loadSource X) fi s" for fi
    by (rule walkEntries_agree) (use pf in \<open>simp add: loadSource_def\<close>)
  then show ?thesis by (simp add: walkSource_def rd split: sum.splits)
qed

lemma prepare_agree:
  assumes rd: "rd (Getenv X ''GOPATH'' @ ''/src/'' @ pkgPath) =
               ReadDir X (Getenv X ''GOPATH'' @ ''/src/'' @ pkgPath)"
    and pf: "\<And>name. pf ((Getenv X ''GOPATH'' @ ''/src/'' @ pkgPath) @ ''/'' @ name) =
               ParseFile X ((Getenv X ''GOPATH'' @ ''/src/'' @ pkgPath) @ ''/'' @ name)"
    and p: "prepare X pkgPath newPkgPath M = Inr (pt, files, tc)"
    and p': "prepare (X\<lparr>ReadDir := rd, ParseFile := pf\<rparr>) pkgPath newPkgPath M = Inr (pt', files', tc')"
  shows "pt' = pt \<and> files' = files"
proof -
  let ?X' = "X\<lparr>ReadDir := rd, ParseFile := pf\<rparr>"
  let ?dir = "Getenv X ''GOPATH'' @ ''/src/'' @ pkgPath"
  from prepare_Inr[OF p] obtain parsed rewritten where
    t: "parsePackageTarget X newPkgPath = Inr pt"
    and load: "walkSource X ?dir (loadSource X) [] = Inr parsed"
    and loop: "rewriteLoop X pt M
         (rangeOver X 0 (map (\<lambda>pf. (fst pf, Resolve X parsed (snd pf))) parsed))
         (map (\<lambda>pf. (fst pf, Resolve X parsed (snd pf))) parsed) [] = Inr (files, rewritten)"
    by blast
  from prepare_Inr[OF p'] obtain parsed' rewritten' where
    t': "parsePackageTarget ?X' newPkgPath = Inr pt'"
    and load': "walkSource ?X' (Getenv ?X' ''GOPATH'' @ ''/src/'' @ pkgPath) (loadSource ?X') [] = Inr parsed'"
    and loop': "rewriteLoop ?X' pt' M
         (rangeOver ?X' 0 (map (\<lambda>pf. (fst pf, Resolve ?X' parsed' (snd pf))) parsed'))
         (map (\<lambda>pf. (fst pf, Resolve ?X' parsed' (snd pf))) parsed') [] = Inr (files', rewritten')"
    by blast
  have pt: "pt' = pt" using t t' by simp
  have "walkSource ?X' ?dir (loadSource ?X') [] = walkSource X ?dir (loadSource X) []"
    using rd pf by (rule load_agree)
  then have "parsed' = parsed" using load load' by simp
  then have "files' = files" using loop loop' pt by simp
  then show ?thesis using pt by simp
qed

text \<open>
  C7. In same-directory mode the trees under check are the refreshed rewrites followed
  by the stubs, and a stub is made of the type declarations of a file of the current
  directory, each definition replaced by \<^verbatim>\<open>uint32\<close>. Every tree that the run
  serializes into a file is a tree of \<^verbatim>\<open>files\<close>, the refresh of a rewritten template
  file, written under the prefixed base name of that file: no stub is written. And the
  stubs do not change what is emitted: an environment that lists any other current
  directory and parses any other files there, but agrees on the template directory,
  prepares the same \<^verbatim>\<open>files\<close>, and when the checker accepts both runs they return the
  same result after the same calls.
\<close>

theorem stubs_are_checker_only:
  assumes "prepare X pkgPath newPkgPath typeMap = Inr (pt, files, tc)" and "SameDir pt"
  shows "(\<exists>rewritten stubs. tc = rewritten @ stubs \<and>
            (\<forall>g \<in> set rewritten. \<exists>f h. rewriteFile X pt typeMap f = Some h \<and> refresh X h = Inr g) \<and>
            (\<forall>s \<in> set stubs. \<exists>path g. ParseFile X path = Inr g \<and>
               findDecl g = Some (map stubDecl (filter isTypeDecl (Decls g))) \<and>
               s = \<lparr>PkgName = PkgName g, Decls = map stubDecl (filter isTypeDecl (Decls g))\<rparr>)) \<and>
    (\<forall>p g e. (FormatNode p g, e) \<in> set (snd (RewritePackage X pkgPath newPkgPath typeMap)) \<longrightarrow>
        (\<exists>path. (path, g) \<in> set files \<and> p = NewPath pt @ ''_'' @ Base X path)) \<and>
    (\<forall>pg \<in> set files. \<exists>parsed f0 h.
        ParseFile X (fst pg) = Inr f0 \<and>
        rewriteFile X pt typeMap (Resolve X parsed f0) = Some h \<and> refresh X h = Inr (snd pg)) \<and>
    (\<forall>rd pf pt' files' tc'.
        rd (Getenv X ''GOPATH'' @ ''/src/'' @ pkgPath) =
          ReadDir X (Getenv X ''GOPATH'' @ ''/src/'' @ pkgPath) \<and>
        (\<forall>name. pf ((Getenv X ''GOPATH'' @ ''/src/'' @ pkgPath) @ ''/'' @ name) =
                  ParseFile X ((Getenv X ''GOPATH'' @ ''/src/'' @ pkgPath) @ ''/'' @ name)) \<and>
        prepare (X\<lparr>ReadDir := rd, ParseFile := pf\<rparr>) pkgPath newPkgPath typeMap =
          Inr (pt', files', tc') \<longrightarrow>
        pt' = pt \<and> files' = files \<and>
        (Check X tc = None \<and> Check X tc' = None \<longrightarrow>
           RewritePackage (X\<lparr>ReadDir := rd, ParseFile := pf\<rparr>) pkgPath newPkgPath typeMap =
           RewritePackage X pkgPath newPkgPath typeMap))"
proof (intro conjI)
  from prepare_Inr[OF assms(1)] assms(2) obtain parsed rewritten where
    loop: "rewriteLoop X pt typeMap
         (rangeOver X 0 (map (\<lambda>pf. (fst pf, Resolve X parsed (snd pf))) parsed))
         (map (\<lambda>pf. (fst pf, Resolve X parsed (snd pf))) parsed) [] = Inr (files, rewritten)"
    and st: "walkSource X ''.'' (stubSource X) rewritten = Inr tc"
    by auto
  show "\<exists>rewritten stubs. tc = rewritten @ stubs \<and>
            (\<forall>g \<in> set rewritten. \<exists>f h. rewriteFile X pt typeMap f = Some h \<and> refresh X h = Inr g) \<and>
            (\<forall>s \<in> set stubs. \<exists>path g. ParseFile X path = Inr g \<and>
               findDecl g = Some (map stubDecl (filter isTypeDecl (Decls g))) \<and>
               s = \<lparr>PkgName = PkgName g, Decls = map stubDecl (filter isTypeDecl (Decls g))\<rparr>)"
    using stubs_shape'[OF st] rewritten_trees[OF loop] by blast
next
  show "\<forall>p g e. (FormatNode p g, e) \<in> set (snd (RewritePackage X pkgPath newPkgPath typeMap)) \<longrightarrow>
        (\<exists>path. (path, g) \<in> set files \<and> p = NewPath pt @ ''_'' @ Base X path)"
  proof (intro allI impI)
    fix p g e
    assume "(FormatNode p g, e) \<in> set (snd (RewritePackage X pkgPath newPkgPath typeMap))"
    from RewritePackage_SameDir_entry[OF assms this]
    obtain pf where "pf \<in> set files" "p = sameDirDest X pt (fst pf)" "g = snd pf" by auto
    then show "\<exists>path. (path, g) \<in> set files \<and> p = NewPath pt @ ''_'' @ Base X path"
      by (intro exI[of _ "fst pf"]) (simp add: sameDirDest_def)
  qed
next
  show "\<forall>pg \<in> set files. \<exists>parsed f0 h.
        ParseFile X (fst pg) = Inr f0 \<and>
        rewriteFile X pt typeMap (Resolve X parsed f0) = Some h \<and> refresh X h = Inr (snd pg)"
    using prepare_files[OF assms(1)] by blast
next
  show "\<forall>rd pf pt' files' tc'.
        rd (Getenv X ''GOPATH'' @ ''/src/'' @ pkgPath) =
          ReadDir X (Getenv X ''GOPATH'' @ ''/src/'' @ pkgPath) \<and>
        (\<forall>name. pf ((Getenv X ''GOPATH'' @ ''/src/'' @ pkgPath) @ ''/'' @ name) =
                  ParseFile X ((Getenv X ''GOPATH'' @ ''/src/'' @ pkgPath) @ ''/'' @ name)) \<and>
        prepare (X\<lparr>ReadDir := rd, ParseFile := pf\<rparr>) pkgPath newPkgPath typeMap =
          Inr (pt', files', tc') \<longrightarrow>
        pt' = pt \<and> files' = files \<and>
        (Check X tc = None \<and> Check X tc' = None \<longrightarrow>
           RewritePackage (X\<lparr>ReadDir := rd, ParseFile := pf\<rparr>) pkgPath newPkgPath typeMap =
           RewritePackage X pkgPath newPkgPath typeMap)"
  proof (intro allI impI, elim conjE)
    fix rd pf pt' files' tc'
    assume rd: "rd (Getenv X ''GOPATH'' @ ''/src/'' @ pkgPath) =
          ReadDir X (Getenv X ''GOPATH'' @ ''/src/'' @ pkgPath)"
      and pf: "\<forall>name. pf ((Getenv X ''GOPATH'' @ ''/src/'' @ pkgPath) @ ''/'' @ name) =
                  ParseFile X ((Getenv X ''GOPATH'' @ ''/src/'' @ pkgPath) @ ''/'' @ name)"
      and p': "prepare (X\<lparr>ReadDir := rd, ParseFile := pf\<rparr>) pkgPath newPkgPath typeMap =
          Inr (pt', files', tc')"
    have eq: "pt' = pt \<and> files' = files"
      using rd pf[rule_format] assms(1) p' by (rule prepare_agree)
    have "RewritePackage (X\<lparr>ReadDir := rd, ParseFile := pf\<rparr>) pkgPath newPkgPath typeMap =
           RewritePackage X pkgPath newPkgPath typeMap"
      if c: "Check X tc = None \<and> Check X tc' = None"
    proof -
      have "RewritePackage (X\<lparr>ReadDir := rd, ParseFile := pf\<rparr>) pkgPath newPkgPath typeMap =
            emitSameDir X pt files []"
        unfolding RewritePackage_def p' using c eq assms(2) by simp
      moreover have "RewritePackage X pkgPath newPkgPath typeMap = emitSameDir X pt files []"
        unfolding RewritePackage_def assms(1) using c assms(2) by simp
      ultimately show ?thesis by simp
    qed
    then show "pt' = pt \<and> files' = files \<and>
        (Check X tc = None \<and> Check X tc' = None \<longrightarrow>
           RewritePackage (X\<lparr>ReadDir := rd, ParseFile := pf\<rparr>) pkgPath newPkgPath typeMap =
           RewritePackage X pkgPath newPkgPath typeMap)"
      using eq by blast
  qed
qed

text \<open>
  With the file \<^verbatim>\<open>main.go\<close> in the current directory and with an empty current
  directory the run makes the same calls: it writes the rewritten template and no stub.
\<close>

theorem stubs_are_checker_only_witness:
  "prepare exampleEnv ''stack'' ''.gen'' exampleMap =
     Inr (\<lparr>SameDir = True, NewName = ''main'', NewPath = ''gen''\<rparr>,
          [(''/go/src/stack/stack.go'', reparsed ''main'' ''gen_Process'')],
          [reparsed ''main'' ''gen_Process'', siblingStub]) \<and>
   prepare noSiblings ''stack'' ''.gen'' exampleMap =
     Inr (\<lparr>SameDir = True, NewName = ''main'', NewPath = ''gen''\<rparr>,
          [(''/go/src/stack/stack.go'', reparsed ''main'' ''gen_Process'')],
          [reparsed ''main'' ''gen_Process'']) \<and>
   RewritePackage noSiblings ''stack'' ''.gen'' exampleMap =
     RewritePackage exampleEnv ''stack'' ''.gen'' exampleMap \<and>
   RewritePackage exampleEnv ''stack'' ''.gen'' exampleMap =
     (None,
      [(Create ''gen_stack.go'', None),
       (FormatNode ''gen_stack.go'' (reparsed ''main'' ''gen_Process''), None),
       (Close ''gen_stack.go'', None)])"
proof -
  have sd: "SameDir \<lparr>SameDir = True, NewName = ''main'', NewPath = ''gen''\<rparr>" by simp
  note t = stubs_are_checker_only[OF prepare_example_gen sd]
  from t have ni: "\<forall>rd pf pt' files' tc'.
        rd (Getenv exampleEnv ''GOPATH'' @ ''/src/'' @ ''stack'') =
          ReadDir exampleEnv (Getenv exampleEnv ''GOPATH'' @ ''/src/'' @ ''stack'') \<and>
        (\<forall>name. pf ((Getenv exampleEnv ''GOPATH'' @ ''/src/'' @ ''stack'') @ ''/'' @ name) =
                  ParseFile exampleEnv ((Getenv exampleEnv ''GOPATH'' @ ''/src/'' @ ''stack'') @ ''/'' @ name)) \<and>
        prepare (exampleEnv\<lparr>ReadDir := rd, ParseFile := pf\<rparr>) ''stack'' ''.gen'' exampleMap =
          Inr (pt', files', tc') \<longrightarrow>
        pt' = \<lparr>SameDir = True, NewName = ''main'', NewPath = ''gen''\<rparr> \<and>
        files' = [(''/go/src/stack/stack.go'', reparsed ''main'' ''gen_Process'')] \<and>
        (Check exampleEnv [reparsed ''main'' ''gen_Process'', siblingStub] = None \<and>
         Check exampleEnv tc' = None \<longrightarrow>
           RewritePackage (exampleEnv\<lparr>ReadDir := rd, ParseFile := pf\<rparr>) ''stack'' ''.gen'' exampleMap =
           RewritePackage exampleEnv ''stack'' ''.gen'' exampleMap)"
    by blast
  have rd: "((ReadDir exampleEnv)(''.'' := Inr [])) (Getenv exampleEnv ''GOPATH'' @ ''/src/'' @ ''stack'') =
          ReadDir exampleEnv (Getenv exampleEnv ''GOPATH'' @ ''/src/'' @ ''stack'')"
    by (simp add: exampleEnv_def)
  have c: "Check exampleEnv tc = None" for tc by (simp add: exampleEnv_def)
  have "RewritePackage noSiblings ''stack'' ''.gen'' exampleMap =
     RewritePackage exampleEnv ''stack'' ''.gen'' exampleMap"
    using ni[rule_format, of "(ReadDir exampleEnv)(''.'' := Inr [])" "ParseFile exampleEnv"
        "\<lparr>SameDir = True, NewName = ''main'', NewPath = ''gen''\<rparr>"
        "[(''/go/src/stack/stack.go'', reparsed ''main'' ''gen_Process'')]"
        "[reparsed ''main'' ''gen_Process'']"]
      rd c prepare_noSiblings[unfolded noSiblings_def]
    by (simp add: noSiblings_def)
  then show ?thesis using prepare_example_gen prepare_noSiblings run_example_gen by simp
qed

end
